theory Spec2Isabelle
  imports Main
begin

section \<open>Python values used by git_branch_stack.py\<close>

text \<open>
  Exceptions are values. \<open>SystemExit msg code\<close> stands for \<^verbatim>\<open>print(msg); sys.exit(code)\<close>:
  the message printed immediately before the exit and the exit status. Unlike the other
  errors, \<open>SystemExit\<close> is not a subclass of Python's \<open>Exception\<close>, so an
  \<^verbatim>\<open>except Exception\<close> clause lets it pass.
\<close>

datatype py_error = TypeError | IndexError | ValueError | AttributeError | SystemExit string int

definition is_Exception :: "py_error \<Rightarrow> bool" where
  "is_Exception e = (case e of SystemExit m c \<Rightarrow> False | _ \<Rightarrow> True)"

text \<open>
  List indexing as Python does it: a negative index counts from the end, and an index
  outside \<open>-len .. len - 1\<close> raises \<open>IndexError\<close>.
\<close>

definition py_index :: "'a list \<Rightarrow> int \<Rightarrow> nat option" where
  "py_index xs i =
     (let n = int (length xs); j = (if i < 0 then i + n else i)
      in if 0 \<le> j \<and> j < n then Some (nat j) else None)"

definition py_getitem :: "'a list \<Rightarrow> int \<Rightarrow> py_error + 'a" where
  "py_getitem xs i = (case py_index xs i of None \<Rightarrow> Inl IndexError | Some k \<Rightarrow> Inr (xs ! k))"

definition py_delitem :: "'a list \<Rightarrow> int \<Rightarrow> py_error + 'a list" where
  "py_delitem xs i =
     (case py_index xs i of None \<Rightarrow> Inl IndexError | Some k \<Rightarrow> Inr (take k xs @ drop (Suc k) xs))"

text \<open>\<^verbatim>\<open>list.insert(i, x)\<close> never raises: the index is clamped into \<open>0 .. len\<close>.\<close>

definition py_insert :: "'a list \<Rightarrow> int \<Rightarrow> 'a \<Rightarrow> 'a list" where
  "py_insert xs i x =
     (let n = int (length xs); j = (if i < 0 then max 0 (i + n) else min i n)
      in take (nat j) xs @ x # drop (nat j) xs)"

text \<open>\<^verbatim>\<open>list.index(x)\<close>: the index of the first occurrence, \<open>ValueError\<close> when there is none.\<close>

fun py_list_index :: "'a list \<Rightarrow> 'a \<Rightarrow> py_error + int" where
  "py_list_index [] x = Inl ValueError"
| "py_list_index (y # ys) x =
     (if y = x then Inr 0
      else (case py_list_index ys x of Inl e \<Rightarrow> Inl e | Inr k \<Rightarrow> Inr (k + 1)))"

text \<open>\<^verbatim>\<open>list.remove(x)\<close>: drops the first occurrence, \<open>ValueError\<close> when there is none.\<close>

fun py_remove :: "'a list \<Rightarrow> 'a \<Rightarrow> py_error + 'a list" where
  "py_remove [] x = Inl ValueError"
| "py_remove (y # ys) x =
     (if y = x then Inr ys
      else (case py_remove ys x of Inl e \<Rightarrow> Inl e | Inr r \<Rightarrow> Inr (y # r)))"

section \<open>The ring record and the Stack class\<close>

text \<open>
  \<open>RingRecord\<close> is the dictionary \<^verbatim>\<open>{'ring': [...], 'position': ...}\<close> kept for one repository
  root. A \<open>Stack\<close> object holds that dictionary in memory (\<open>stack\<close>); \<open>stack_file\<close> is what the
  store file holds for the same root, which only \<open>save\<close> writes. The position is an
  integer or \<open>None\<close>, whatever the store file held; a ring that is \<open>None\<close> instead of a
  list, which \<^verbatim>\<open>is_empty\<close> also tests for, is not modelled. Printing and the verbose
  trace are left out of the model.
\<close>

record RingRecord =
  ring :: "string list"
  position :: "int option"

record Stack =
  stack :: RingRecord
  stack_file :: RingRecord

definition is_empty :: "Stack \<Rightarrow> bool" where
  "is_empty s = (ring (stack s) = [])"

definition save :: "Stack \<Rightarrow> Stack" where
  "save s = s\<lparr>stack_file := stack s\<rparr>"

definition push :: "Stack \<Rightarrow> string \<Rightarrow> py_error + Stack" where
  "push s branch =
     (if branch \<in> set (ring (stack s)) then
        (case py_list_index (ring (stack s)) branch of
           Inl e \<Rightarrow> Inl e
         | Inr new_position \<Rightarrow>
             Inr (save (s\<lparr>stack := (stack s)\<lparr>position := Some new_position\<rparr>\<rparr>)))
      else
        (let new_position = (case position (stack s) of Some i \<Rightarrow> i + 1 | None \<Rightarrow> 0)
         in Inr (save (s\<lparr>stack := \<lparr>ring = py_insert (ring (stack s)) new_position branch,
                                     position = Some new_position\<rparr>\<rparr>))))"

definition pop :: "Stack \<Rightarrow> py_error + (string \<times> Stack)" where
  "pop s =
     (case position (stack s) of
        None \<Rightarrow> Inl (SystemExit ''No branches on the stack'' 1)
      | Some i \<Rightarrow>
          (case py_getitem (ring (stack s)) i of
             Inl e \<Rightarrow> Inl e
           | Inr out \<Rightarrow>
               (case py_delitem (ring (stack s)) i of
                  Inl e \<Rightarrow> Inl e
                | Inr r \<Rightarrow>
                    Inr (out, save (s\<lparr>stack :=
                      \<lparr>ring = r,
                       position = (if r \<noteq> [] then Some ((i - 1) mod int (length r)) else None)\<rparr>\<rparr>)))))"

definition current :: "Stack \<Rightarrow> py_error + (string option \<times> Stack)" where
  "current s =
     (if ring (stack s) \<noteq> [] then
        (case position (stack s) of
           None \<Rightarrow> Inl TypeError
         | Some i \<Rightarrow>
             if int (length (ring (stack s))) > i then
               (case py_getitem (ring (stack s)) i of
                  Inl e \<Rightarrow> Inl e
                | Inr x \<Rightarrow> Inr (Some x, s))
             else Inr (None, s))
      else Inr (None, s))"

text \<open>The method \<^verbatim>\<open>back\<close> is named \<open>back'\<close> here (\<open>back\<close> is a reserved word).\<close>

definition back' :: "Stack \<Rightarrow> py_error + (string option \<times> Stack)" where
  "back' s =
     (if ring (stack s) = [] then Inr (None, s)
      else
        (case position (stack s) of
           None \<Rightarrow> Inl TypeError
         | Some i \<Rightarrow>
             (let new_index = (i - 1) mod int (length (ring (stack s)));
                  s' = save (s\<lparr>stack := (stack s)\<lparr>position := Some new_index\<rparr>\<rparr>)
              in (case py_getitem (ring (stack s')) new_index of
                    Inl e \<Rightarrow> Inl e
                  | Inr x \<Rightarrow> Inr (Some x, s')))))"

definition forward :: "Stack \<Rightarrow> py_error + (string option \<times> Stack)" where
  "forward s =
     (if ring (stack s) = [] then Inr (None, s)
      else
        (case position (stack s) of
           None \<Rightarrow> Inl TypeError
         | Some i \<Rightarrow>
             (let new_index = (i + 1) mod int (length (ring (stack s)));
                  s' = save (s\<lparr>stack := (stack s)\<lparr>position := Some new_index\<rparr>\<rparr>)
              in (case py_getitem (ring (stack s')) new_index of
                    Inl e \<Rightarrow> Inl e
                  | Inr x \<Rightarrow> Inr (Some x, s')))))"

text \<open>\<open>forward_times n\<close> is \<^verbatim>\<open>forward()\<close> called \<open>n\<close> times in a row, stopping at the first error.\<close>

fun forward_times :: "nat \<Rightarrow> Stack \<Rightarrow> py_error + Stack" where
  "forward_times 0 s = Inr s"
| "forward_times (Suc n) s =
     (case forward s of Inl e \<Rightarrow> Inl e | Inr (x, s') \<Rightarrow> forward_times n s')"

text \<open>
  The data-model invariants of a record: the position is absent exactly when the ring is
  empty, it is otherwise an index of the ring, and no name occurs twice.
\<close>

definition ring_inv :: "RingRecord \<Rightarrow> bool" where
  "ring_inv r =
     ((case position r of
         None \<Rightarrow> ring r = []
       | Some p \<Rightarrow> ring r \<noteq> [] \<and> 0 \<le> p \<and> p < int (length (ring r)))
      \<and> distinct (ring r))"

section \<open>Strings\<close>

text \<open>
  Text that the program reads (the output of git, the line typed at the prompt) is a Python
  \<^verbatim>\<open>str\<close>: a list of Unicode code points, here natural numbers. \<open>lit\<close> turns a literal
  into its code points. Reference names stay HOL strings: the program only compares them
  and hands them on.

  Which code points are whitespace (for \<^verbatim>\<open>str.strip()\<close> and \<^verbatim>\<open>str.split()\<close>), which
  are decimal digits and with what value (for \<^verbatim>\<open>\d\<close> and \<^verbatim>\<open>int()\<close>), and beyond how many digits
  \<^verbatim>\<open>int()\<close> refuses a string (\<^verbatim>\<open>sys.get_int_max_str_digits()\<close>, 0 for no limit) depends on
  the interpreter. These enter as a parameter \<open>py\<close>, so that what is proved holds for every
  Python; \<open>cpython_3_11\<close> is CPython 3.11 with its defaults, whose tables are those of
  Unicode 14.0.0: 29 whitespace characters, and 66 runs of ten decimal digits, each run in
  ascending order from its zero.
\<close>

type_synonym pystr = "nat list"

definition lit :: "string \<Rightarrow> pystr" where
  "lit s = map of_char s"

record python =
  isspace :: "nat \<Rightarrow> bool"
  decimal :: "nat \<Rightarrow> nat option"
  max_str_digits :: nat

definition cpython_3_11 :: python where
  "cpython_3_11 =
     \<lparr>isspace = (\<lambda>c. c \<in> set
        [0x9, 0xA, 0xB, 0xC, 0xD, 0x1C, 0x1D, 0x1E, 0x1F, 0x20, 0x85, 0xA0, 0x1680,
         0x2000, 0x2001, 0x2002, 0x2003, 0x2004, 0x2005, 0x2006, 0x2007, 0x2008, 0x2009,
         0x200A, 0x2028, 0x2029, 0x202F, 0x205F, 0x3000]),
      decimal = (\<lambda>c. case find (\<lambda>z. z \<le> c \<and> c < z + 10)
        [0x30, 0x660, 0x6F0, 0x7C0, 0x966, 0x9E6, 0xA66, 0xAE6, 0xB66, 0xBE6, 0xC66, 0xCE6,
         0xD66, 0xDE6, 0xE50, 0xED0, 0xF20, 0x1040, 0x1090, 0x17E0, 0x1810, 0x1946, 0x19D0,
         0x1A80, 0x1A90, 0x1B50, 0x1BB0, 0x1C40, 0x1C50, 0xA620, 0xA8D0, 0xA900, 0xA9D0,
         0xA9F0, 0xAA50, 0xABF0, 0xFF10, 0x104A0, 0x10D30, 0x11066, 0x110F0, 0x11136,
         0x111D0, 0x112F0, 0x11450, 0x114D0, 0x11650, 0x116C0, 0x11730, 0x118E0, 0x11950,
         0x11C50, 0x11D50, 0x11DA0, 0x16A60, 0x16AC0, 0x16B50, 0x1D7CE, 0x1D7D8, 0x1D7E2,
         0x1D7EC, 0x1D7F6, 0x1E140, 0x1E2F0, 0x1E950, 0x1FBF0] of
          None \<Rightarrow> None | Some z \<Rightarrow> Some (c - z)),
      max_str_digits = 4300\<rparr>"

definition strip :: "python \<Rightarrow> pystr \<Rightarrow> pystr" where
  "strip py s = rev (dropWhile (isspace py) (rev (dropWhile (isspace py) s)))"

text \<open>
  \<open>split_where sep s\<close> cuts \<open>s\<close> at every element satisfying \<open>sep\<close>, keeping empty pieces:
  \<^verbatim>\<open>s.split("\n")\<close> is \<open>split_on\<close> of the newline (code point 10), and \<^verbatim>\<open>s.split()\<close> cuts at
  whitespace and drops the empty pieces.
\<close>

fun split_where :: "('a \<Rightarrow> bool) \<Rightarrow> 'a list \<Rightarrow> 'a list list" where
  "split_where sep [] = [[]]"
| "split_where sep (c # cs) =
     (if sep c then [] # split_where sep cs
      else (case split_where sep cs of w # ws \<Rightarrow> (c # w) # ws | [] \<Rightarrow> [[c]]))"

definition split_on :: "'a \<Rightarrow> 'a list \<Rightarrow> 'a list list" where
  "split_on sep s = split_where (\<lambda>c. c = sep) s"

definition py_split :: "python \<Rightarrow> pystr \<Rightarrow> pystr list" where
  "py_split py s = filter (\<lambda>w. w \<noteq> []) (split_where (isspace py) s)"

definition startswith :: "'a list \<Rightarrow> 'a list \<Rightarrow> bool" where
  "startswith s prefix = (take (length prefix) s = prefix)"

text \<open>
  \<^verbatim>\<open>str.lower()\<close> on the letters A to Z (code points 65 to 90). The program applies it to
  group 1 of its pattern only, which is empty or the one letter d or D.
\<close>

definition lower :: "pystr \<Rightarrow> pystr" where
  "lower s = map (\<lambda>c. if 65 \<le> c \<and> c \<le> 90 then c + 32 else c) s"

text \<open>\<^verbatim>\<open>"%s" % n\<close> for a natural number: its decimal digits, 48 being the code point of 0.\<close>

fun str_nat :: "nat \<Rightarrow> pystr" where
  "str_nat n = (if n < 10 then [48 + n] else str_nat (n div 10) @ [48 + n mod 10])"

declare str_nat.simps [simp del]

definition is_digit :: "python \<Rightarrow> nat \<Rightarrow> bool" where
  "is_digit py c = (decimal py c \<noteq> None)"

definition digit_value :: "python \<Rightarrow> nat \<Rightarrow> int" where
  "digit_value py c = (case decimal py c of None \<Rightarrow> 0 | Some d \<Rightarrow> int d)"

text \<open>
  \<^verbatim>\<open>int(b)\<close> for the tokens the program passes to it, which are runs of decimal digits: the
  number they denote, or \<open>ValueError\<close> when there are more digits than the interpreter's
  limit. On any other string the model raises \<open>ValueError\<close>.
\<close>

definition py_int :: "python \<Rightarrow> pystr \<Rightarrow> py_error + int" where
  "py_int py b =
     (if b = [] \<or> \<not> list_all (is_digit py) b then Inl ValueError
      else if max_str_digits py \<noteq> 0 \<and> max_str_digits py < length b then Inl ValueError
      else Inr (foldl (\<lambda>a c. 10 * a + digit_value py c) 0 b))"

section \<open>The Git class\<close>

text \<open>
  Every method of \<^verbatim>\<open>Git\<close> goes through \<^verbatim>\<open>subprocess.run\<close>. The model takes the outcome of
  running a command line as a parameter \<open>sp\<close>: the exit status and the captured output.
  A leading underscore of a source name is written \<open>u_\<close>.
\<close>

record CompletedProcess =
  returncode :: int
  stdout :: pystr

type_synonym subprocess = "string list \<Rightarrow> CompletedProcess"

definition u_run_with_status :: "subprocess \<Rightarrow> string list \<Rightarrow> CompletedProcess" where
  "u_run_with_status sp args = sp args"

definition u_run :: "python \<Rightarrow> subprocess \<Rightarrow> string list \<Rightarrow> pystr" where
  "u_run py sp args = strip py (stdout (u_run_with_status sp args))"

definition status_for :: "python \<Rightarrow> subprocess \<Rightarrow> string \<Rightarrow> string \<Rightarrow> pystr" where
  "status_for py sp local remote =
     (let query = remote @ ''...'' @ local;
          revs = split_on 10 (u_run py sp [''git'', ''rev-list'', ''--left-right'', query]);
          behind = length (filter (\<lambda>r. startswith r (lit ''<'')) revs);
          ahead = length (filter (\<lambda>r. startswith r (lit ''>'')) revs);
          behind_str = (if behind \<noteq> 0 then lit ''<'' @ str_nat behind else []);
          ahead_str = (if ahead \<noteq> 0 then lit ''>'' @ str_nat ahead else []);
          out = behind_str @ ahead_str
      in if out \<noteq> [] then out else lit ''='')"

definition u_ref_exists :: "subprocess \<Rightarrow> string \<Rightarrow> bool" where
  "u_ref_exists sp branch =
     (returncode (u_run_with_status sp [''git'', ''branch'', ''--no-color'']) = 0)"

definition ref_exists :: "subprocess \<Rightarrow> string \<Rightarrow> bool" where
  "ref_exists sp branch =
     (let remote_ref = ''origin/'' @ branch
      in u_ref_exists sp branch \<or> u_ref_exists sp remote_ref)"

section \<open>Reconciliation\<close>

text \<open>
  \<^verbatim>\<open>_fix_ring\<close> builds a \<^verbatim>\<open>Git\<close> object of its own and filters the ring with its
  \<^verbatim>\<open>ref_exists\<close>; \<open>sp\<close> is what running git gives.
\<close>

definition u_fix_ring :: "subprocess \<Rightarrow> Stack \<Rightarrow> string \<Rightarrow> py_error + Stack" where
  "u_fix_ring sp s branch =
     (case current s of
        Inl e \<Rightarrow> Inl e
      | Inr (expected_branch, s0) \<Rightarrow>
          (let s1 = s0\<lparr>stack := (stack s0)\<lparr>ring := filter (ref_exists sp) (ring (stack s0))\<rparr>\<rparr>
           in if is_empty s1 \<or> Some branch \<noteq> expected_branch then
                (case push s1 branch of Inl e \<Rightarrow> Inl e | Inr s2 \<Rightarrow> Inr (save s2))
              else Inr (save s1)))"

section \<open>Interactive selection\<close>

text \<open>
  \<open>match_selection py resp\<close> is \<^verbatim>\<open>re.match(r"(?i)(d?)( *\d+(?: +\d+)*)", resp)\<close>: \<open>None\<close> when
  there is no match, otherwise groups 1 and 2. The match is anchored at the start of \<open>resp\<close>
  only. Ignoring case, \<^verbatim>\<open>d\<close> matches the code points 100 (d) and 68 (D) and no other; the
  space of the pattern is the code point 32 alone. \<open>more_numbers\<close> is what the greedy
  \<^verbatim>\<open>(?: +\d+)*\<close> takes.
\<close>

definition is_blank :: "nat \<Rightarrow> bool" where
  "is_blank c = (c = 32)"

function more_numbers :: "python \<Rightarrow> pystr \<Rightarrow> pystr" where
  "more_numbers py s =
     (if takeWhile is_blank s \<noteq> [] \<and> takeWhile (is_digit py) (dropWhile is_blank s) \<noteq> [] then
        takeWhile is_blank s @ takeWhile (is_digit py) (dropWhile is_blank s)
          @ more_numbers py (dropWhile (is_digit py) (dropWhile is_blank s))
      else [])"
  by pat_completeness auto
termination
proof (relation "measure (\<lambda>(py, s). length s)")
  show "wf (measure (\<lambda>(py :: python, s :: pystr). length s))" by simp
next
  fix py :: python and s :: pystr
  assume a: "takeWhile is_blank s \<noteq> [] \<and> takeWhile (is_digit py) (dropWhile is_blank s) \<noteq> []"
  have "length (takeWhile is_blank s) + length (dropWhile is_blank s) = length s"
    by (metis length_append takeWhile_dropWhile_id)
  moreover from a have "0 < length (takeWhile is_blank s)"
    by (cases "takeWhile is_blank s") simp_all
  ultimately have "length (dropWhile is_blank s) < length s"
    by linarith
  moreover have "length (dropWhile (is_digit py) (dropWhile is_blank s))
      \<le> length (dropWhile is_blank s)"
    by (rule length_dropWhile_le)
  ultimately have "length (dropWhile (is_digit py) (dropWhile is_blank s)) < length s"
    by linarith
  then show "((py, dropWhile (is_digit py) (dropWhile is_blank s)), (py, s))
      \<in> measure (\<lambda>(py, s). length s)"
    by simp
qed

declare more_numbers.simps [simp del]

definition match_selection :: "python \<Rightarrow> pystr \<Rightarrow> (pystr \<times> pystr) option" where
  "match_selection py resp =
     (let g1 = (case resp of [] \<Rightarrow> [] | c # cs \<Rightarrow> if c = 100 \<or> c = 68 then [c] else []);
          rest = drop (length g1) resp;
          digits = takeWhile (is_digit py) (dropWhile is_blank rest)
      in if digits = [] then None
         else Some (g1, takeWhile is_blank rest @ digits
                          @ more_numbers py (dropWhile (is_digit py) (dropWhile is_blank rest))))"

text \<open>The comprehension \<^verbatim>\<open>[stack.ring[int(b) - 1] for b in ...]\<close>: the first failure raises.\<close>

fun lookup_branches :: "python \<Rightarrow> string list \<Rightarrow> pystr list \<Rightarrow> py_error + string list" where
  "lookup_branches py r [] = Inr []"
| "lookup_branches py r (b # bs) =
     (case py_int py b of
        Inl e \<Rightarrow> Inl e
      | Inr n \<Rightarrow>
          (case py_getitem r (n - 1) of
             Inl e \<Rightarrow> Inl e
           | Inr x \<Rightarrow>
               (case lookup_branches py r bs of Inl e \<Rightarrow> Inl e | Inr xs \<Rightarrow> Inr (x # xs))))"

text \<open>Lines 354 to 356 of \<^verbatim>\<open>print_ring\<close>: the action and the branches selected.\<close>

definition selection :: "python \<Rightarrow> string list \<Rightarrow> pystr \<Rightarrow> py_error + (pystr \<times> string list)" where
  "selection py r resp =
     (case match_selection py resp of
        None \<Rightarrow> Inl AttributeError
      | Some (g1, g2) \<Rightarrow>
          (case lookup_branches py r (py_split py (strip py g2)) of
             Inl e \<Rightarrow> Inl e
           | Inr branches \<Rightarrow> Inr (lower g1, branches)))"

text \<open>
  The delete loop (lines 359 to 366). \<^verbatim>\<open>pop(opts)\<close> is a whole command: it builds a Stack of
  its own from the store file and talks to git. It enters as the parameter \<open>pop_opts\<close>, a
  transformer of the stored record that may fail; the local Stack object is not touched by it.
\<close>

fun delete_branches ::
  "(RingRecord \<Rightarrow> py_error option \<times> RingRecord) \<Rightarrow> string \<Rightarrow> string list \<Rightarrow> Stack
     \<Rightarrow> py_error option \<times> Stack" where
  "delete_branches pop_opts branch [] s = (None, s)"
| "delete_branches pop_opts branch (branch_i # rest) s =
     (if branch = branch_i then
        (case pop_opts (stack_file s) of
           (Some e, f) \<Rightarrow> (Some e, s\<lparr>stack_file := f\<rparr>)
         | (None, f) \<Rightarrow> delete_branches pop_opts branch rest (s\<lparr>stack_file := f\<rparr>))
      else
        (case py_remove (ring (stack s)) branch_i of
           Inl e \<Rightarrow> (Some e, s)
         | Inr r \<Rightarrow>
             delete_branches pop_opts branch rest (save (s\<lparr>stack := (stack s)\<lparr>ring := r\<rparr>\<rparr>))))"

text \<open>
  The interactive part of \<^verbatim>\<open>print_ring\<close> (lines 344 to 383), entered with the reconciled
  Stack \<open>s\<close> and the current reference \<open>branch\<close>. \<open>line\<close> is \<open>None\<close> when the wait for input
  timed out. The jump (lines 374 to 381: checkout, cleanup, push) goes through git and
  enters as the parameter \<open>jump\<close>. The result is the error that leaves the function, if
  any, and the Stack at that point: \<^verbatim>\<open>except Exception\<close> swallows every error but
  \<open>SystemExit\<close>, and keeps what was mutated before the error.
\<close>

definition print_ring ::
  "python \<Rightarrow> (RingRecord \<Rightarrow> py_error option \<times> RingRecord)
     \<Rightarrow> (string \<Rightarrow> Stack \<Rightarrow> py_error option \<times> Stack)
     \<Rightarrow> Stack \<Rightarrow> string \<Rightarrow> pystr option \<Rightarrow> py_error option \<times> Stack" where
  "print_ring py pop_opts jump s branch line =
     (case line of
        None \<Rightarrow> (None, s)
      | Some l \<Rightarrow>
          (let resp = strip py l
           in if resp = [] then (None, s)
              else
                (case (case selection py (ring (stack s)) resp of
                         Inl e \<Rightarrow> (Some e, s)
                       | Inr (action, branches) \<Rightarrow>
                           if action = lit ''d'' then delete_branches pop_opts branch branches s
                           else (case py_getitem branches 0 of
                                   Inl e \<Rightarrow> (Some e, s)
                                 | Inr branch_i \<Rightarrow>
                                     if branch = branch_i then (None, s) else jump branch_i s)) of
                   (Some e, s') \<Rightarrow> if is_Exception e then (None, s') else (Some e, s')
                 | (None, s') \<Rightarrow> (None, s'))))"

section \<open>Python lists and the Stack methods on valid records\<close>

lemma py_index_valid: "0 \<le> i \<Longrightarrow> i < int (length xs) \<Longrightarrow> py_index xs i = Some (nat i)"
  by (simp add: py_index_def)

lemma py_getitem_valid: "0 \<le> i \<Longrightarrow> i < int (length xs) \<Longrightarrow> py_getitem xs i = Inr (xs ! nat i)"
  by (simp add: py_getitem_def py_index_valid)

lemma py_delitem_valid:
  "0 \<le> i \<Longrightarrow> i < int (length xs) \<Longrightarrow>
   py_delitem xs i = Inr (take (nat i) xs @ drop (Suc (nat i)) xs)"
  by (simp add: py_delitem_def py_index_valid)

lemma py_insert_valid:
  "0 \<le> i \<Longrightarrow> i \<le> int (length xs) \<Longrightarrow> py_insert xs i x = take (nat i) xs @ x # drop (nat i) xs"
  by (simp add: py_insert_def min_def)

lemma py_list_index_member:
  "x \<in> set xs \<Longrightarrow> \<exists>k. py_list_index xs x = Inr (int k) \<and> k < length xs \<and> xs ! k = x"
proof (induction xs)
  case Nil
  then show ?case by simp
next
  case (Cons y ys)
  show ?case
  proof (cases "y = x")
    case True
    then show ?thesis by (intro exI[of _ 0]) simp
  next
    case False
    with Cons obtain k where "py_list_index ys x = Inr (int k)" "k < length ys" "ys ! k = x"
      by auto
    with False show ?thesis by (intro exI[of _ "Suc k"]) simp
  qed
qed

lemma current_valid:
  "position (stack s) = Some p \<Longrightarrow> 0 \<le> p \<Longrightarrow> p < int (length (ring (stack s))) \<Longrightarrow>
   current s = Inr (Some (ring (stack s) ! nat p), s)"
  by (auto simp: current_def py_getitem_valid)

lemma current_empty: "ring (stack s) = [] \<Longrightarrow> current s = Inr (None, s)"
  by (simp add: current_def)

lemma ring_inv_Some:
  "ring_inv r \<Longrightarrow> position r = Some p \<Longrightarrow> 0 \<le> p \<and> p < int (length (ring r)) \<and> ring r \<noteq> []"
  by (simp add: ring_inv_def)

lemma ring_inv_None: "ring_inv r \<Longrightarrow> position r = None \<Longrightarrow> ring r = []"
  by (simp add: ring_inv_def)

lemma push_present:
  assumes "name \<in> set (ring (stack s))"
  shows "\<exists>k. push s name = Inr (save (s\<lparr>stack := (stack s)\<lparr>position := Some (int k)\<rparr>\<rparr>))
           \<and> k < length (ring (stack s)) \<and> ring (stack s) ! k = name"
proof -
  from py_list_index_member[OF assms] obtain k where
    "py_list_index (ring (stack s)) name = Inr (int k)" "k < length (ring (stack s))"
    "ring (stack s) ! k = name" by blast
  with assms show ?thesis by (intro exI[of _ k]) (simp add: push_def)
qed

lemma push_absent:
  assumes "name \<notin> set (ring (stack s))"
  shows "push s name =
           Inr (save (s\<lparr>stack := \<lparr>ring = py_insert (ring (stack s))
                                          (case position (stack s) of Some i \<Rightarrow> i + 1 | None \<Rightarrow> 0) name,
                                 position = Some (case position (stack s) of Some i \<Rightarrow> i + 1 | None \<Rightarrow> 0)\<rparr>\<rparr>))"
  using assms by (simp add: push_def Let_def)


lemma pop_valid:
  assumes "position (stack s) = Some p" "0 \<le> p" "p < int (length (ring (stack s)))"
  shows "pop s = Inr (ring (stack s) ! nat p,
           save (s\<lparr>stack := \<lparr>ring = take (nat p) (ring (stack s)) @ drop (Suc (nat p)) (ring (stack s)),
                  position = (if take (nat p) (ring (stack s)) @ drop (Suc (nat p)) (ring (stack s)) \<noteq> []
                              then Some ((p - 1) mod int (length (take (nat p) (ring (stack s)) @ drop (Suc (nat p)) (ring (stack s)))))
                              else None)\<rparr>\<rparr>))"
  using assms by (simp add: pop_def py_getitem_valid py_delitem_valid)

lemma back_valid:
  assumes "position (stack s) = Some p" "ring (stack s) \<noteq> []"
  shows "back' s = Inr (Some (ring (stack s) ! nat ((p - 1) mod int (length (ring (stack s))))),
           save (s\<lparr>stack := (stack s)\<lparr>position := Some ((p - 1) mod int (length (ring (stack s))))\<rparr>\<rparr>))"
proof -
  have "0 \<le> (p - 1) mod int (length (ring (stack s)))"
       "(p - 1) mod int (length (ring (stack s))) < int (length (ring (stack s)))"
    using assms(2) by simp_all
  then show ?thesis
    using assms by (simp add: back'_def Let_def save_def py_getitem_valid)
qed

lemma forward_valid:
  assumes "position (stack s) = Some p" "ring (stack s) \<noteq> []"
  shows "forward s = Inr (Some (ring (stack s) ! nat ((p + 1) mod int (length (ring (stack s))))),
           save (s\<lparr>stack := (stack s)\<lparr>position := Some ((p + 1) mod int (length (ring (stack s))))\<rparr>\<rparr>))"
proof -
  have "0 \<le> (p + 1) mod int (length (ring (stack s)))"
       "(p + 1) mod int (length (ring (stack s))) < int (length (ring (stack s)))"
    using assms(2) by simp_all
  then show ?thesis
    using assms by (simp add: forward_def Let_def save_def py_getitem_valid)
qed

lemma back_empty: "ring (stack s) = [] \<Longrightarrow> back' s = Inr (None, s)"
  by (simp add: back'_def)

lemma forward_empty: "ring (stack s) = [] \<Longrightarrow> forward s = Inr (None, s)"
  by (simp add: forward_def)


lemma distinct_delete_nth: "distinct xs \<Longrightarrow> distinct (take k xs @ drop (Suc k) xs)"
  using set_take_disj_set_drop_if_distinct[of xs k "Suc k"] by simp

lemma distinct_insert_nth:
  "distinct xs \<Longrightarrow> x \<notin> set xs \<Longrightarrow> distinct (take k xs @ x # drop k xs)"
  using set_take_disj_set_drop_if_distinct[of xs k k]
  by (auto dest: in_set_takeD in_set_dropD)

lemma push_preserves_inv:
  assumes "ring_inv (stack s)"
  shows "\<exists>s'. push s name = Inr s' \<and> ring_inv (stack s')"
proof (cases "name \<in> set (ring (stack s))")
  case True
  from push_present[OF True] obtain k where
    "push s name = Inr (save (s\<lparr>stack := (stack s)\<lparr>position := Some (int k)\<rparr>\<rparr>))"
    "k < length (ring (stack s))" by blast
  with assms show ?thesis by (auto simp: save_def ring_inv_def)
next
  case False
  define np where "np = (case position (stack s) of Some i \<Rightarrow> i + 1 | None \<Rightarrow> (0::int))"
  have np: "0 \<le> np" "np \<le> int (length (ring (stack s)))"
    using assms by (auto simp: np_def ring_inv_def split: option.splits)
  have d: "distinct (ring (stack s))" using assms by (simp add: ring_inv_def)
  have "distinct (py_insert (ring (stack s)) np name)"
    unfolding py_insert_valid[OF np] by (rule distinct_insert_nth[OF d False])
  moreover have "length (py_insert (ring (stack s)) np name) = length (ring (stack s)) + 1"
    unfolding py_insert_valid[OF np] using np by simp
  ultimately have "ring_inv \<lparr>ring = py_insert (ring (stack s)) np name, position = Some np\<rparr>"
    using np by (auto simp: ring_inv_def)
  then show ?thesis
    using push_absent[OF False] by (simp add: np_def save_def)
qed

lemma pop_preserves_inv:
  assumes "ring_inv (stack s)"
  shows "case pop s of Inl e \<Rightarrow> position (stack s) = None | Inr (x, s') \<Rightarrow> ring_inv (stack s')"
proof (cases "position (stack s)")
  case None
  then show ?thesis by (simp add: pop_def)
next
  case (Some p)
  define r' where "r' = take (nat p) (ring (stack s)) @ drop (Suc (nat p)) (ring (stack s))"
  from ring_inv_Some[OF assms Some] have b: "0 \<le> p" "p < int (length (ring (stack s)))"
    by simp_all
  have d: "distinct (ring (stack s))" using assms by (simp add: ring_inv_def)
  have d': "distinct r'" unfolding r'_def by (rule distinct_delete_nth[OF d])
  have "ring_inv \<lparr>ring = r',
      position = (if r' \<noteq> [] then Some ((p - 1) mod int (length r')) else None)\<rparr>"
  proof (cases "r' = []")
    case True
    then show ?thesis by (simp add: ring_inv_def)
  next
    case False
    then have "0 < int (length r')" by simp
    then have "0 \<le> (p - 1) mod int (length r')" "(p - 1) mod int (length r') < int (length r')"
      by (rule pos_mod_sign, rule pos_mod_bound)
    with d' False show ?thesis by (simp add: ring_inv_def)
  qed
  then show ?thesis
    using pop_valid[OF Some b, folded r'_def] by (simp add: save_def)
qed

lemma forward_preserves_inv:
  assumes "ring_inv (stack s)"
  shows "\<exists>x s'. forward s = Inr (x, s') \<and> ring_inv (stack s') \<and> ring (stack s') = ring (stack s)"
proof (cases "position (stack s)")
  case None
  with assms have "ring (stack s) = []" by (rule ring_inv_None)
  with assms show ?thesis by (simp add: forward_empty)
next
  case (Some p)
  from ring_inv_Some[OF assms Some] have ne: "ring (stack s) \<noteq> []" by simp
  then have "0 < int (length (ring (stack s)))" by simp
  then have "0 \<le> (p + 1) mod int (length (ring (stack s)))"
      "(p + 1) mod int (length (ring (stack s))) < int (length (ring (stack s)))"
    by (rule pos_mod_sign, rule pos_mod_bound)
  then show ?thesis
    using assms ne by (simp add: forward_valid[OF Some ne] save_def ring_inv_def)
qed

lemma back_preserves_inv:
  assumes "ring_inv (stack s)"
  shows "\<exists>x s'. back' s = Inr (x, s') \<and> ring_inv (stack s') \<and> ring (stack s') = ring (stack s)"
proof (cases "position (stack s)")
  case None
  with assms have "ring (stack s) = []" by (rule ring_inv_None)
  with assms show ?thesis by (simp add: back_empty)
next
  case (Some p)
  from ring_inv_Some[OF assms Some] have ne: "ring (stack s) \<noteq> []" by simp
  then have "0 < int (length (ring (stack s)))" by simp
  then have "0 \<le> (p - 1) mod int (length (ring (stack s)))"
      "(p - 1) mod int (length (ring (stack s))) < int (length (ring (stack s)))"
    by (rule pos_mod_sign, rule pos_mod_bound)
  then show ?thesis
    using assms ne by (simp add: back_valid[OF Some ne] save_def ring_inv_def)
qed


lemma forward_times_position:
  assumes "position (stack s) = Some p" "0 \<le> p" "p < int (length (ring (stack s)))"
  shows "\<exists>s'. forward_times k s = Inr s'
            \<and> ring (stack s') = ring (stack s)
            \<and> position (stack s') = Some ((p + int k) mod int (length (ring (stack s))))"
  using assms
proof (induction k arbitrary: s p)
  case 0
  then show ?case by simp
next
  case (Suc k)
  define n where "n = int (length (ring (stack s)))"
  have ne: "ring (stack s) \<noteq> []" using Suc.prems by auto
  have npos: "0 < n" using ne by (simp add: n_def)
  define s1 where "s1 = save (s\<lparr>stack := (stack s)\<lparr>position := Some ((p + 1) mod n)\<rparr>\<rparr>)"
  have f: "forward s = Inr (Some (ring (stack s) ! nat ((p + 1) mod n)), s1)"
    unfolding s1_def n_def by (rule forward_valid[OF Suc.prems(1) ne])
  have p1: "position (stack s1) = Some ((p + 1) mod n)" and r1: "ring (stack s1) = ring (stack s)"
    by (simp_all add: s1_def save_def)
  have b1: "0 \<le> (p + 1) mod n" "(p + 1) mod n < int (length (ring (stack s1)))"
    using npos by (simp_all add: r1 n_def)
  from Suc.IH[OF p1 b1] r1 obtain s' where
    s': "forward_times k s1 = Inr s'" "ring (stack s') = ring (stack s)"
    "position (stack s') = Some (((p + 1) mod n + int k) mod n)"
    by (auto simp: n_def)
  have "((p + 1) mod n + int k) mod n = ((p + 1) + int k) mod n"
    by (rule mod_add_left_eq)
  also have "(p + 1) + int k = p + int (Suc k)" by simp
  finally show ?case using f s' by (simp add: n_def)
qed

lemma current_total_on_inv:
  assumes "ring_inv (stack s)"
  shows "\<exists>x. current s = Inr (x, s)"
proof (cases "position (stack s)")
  case None
  with assms have "ring (stack s) = []" by (rule ring_inv_None)
  then show ?thesis by (simp add: current_empty)
next
  case (Some p)
  from ring_inv_Some[OF assms Some] current_valid[OF Some] show ?thesis by blast
qed






section \<open>Text: splitting and decimal rendering\<close>

lemma str_nat_nonempty: "str_nat n \<noteq> []"
  by (subst str_nat.simps) simp

lemma str_nat_digits: "list_all (\<lambda>c. 48 \<le> c \<and> c \<le> 57) (str_nat n)"
proof (induction n rule: str_nat.induct)
  case (1 n)
  show ?case
  proof (cases "n < 10")
    case True
    then show ?thesis by (subst str_nat.simps) simp
  next
    case False
    have "n mod 10 < 10" by simp
    then have "48 + n mod 10 \<le> 57" by linarith
    with False 1 show ?thesis by (subst str_nat.simps) simp
  qed
qed

lemma str_nat_value: "foldl (\<lambda>a c. 10 * a + (c - 48)) 0 (str_nat n) = n"
proof (induction n rule: str_nat.induct)
  case (1 n)
  show ?case
  proof (cases "n < 10")
    case True
    then show ?thesis by (subst str_nat.simps) simp
  next
    case False
    have "foldl (\<lambda>a c. 10 * a + (c - 48)) 0 (str_nat n)
        = 10 * foldl (\<lambda>a c. 10 * a + (c - 48)) 0 (str_nat (n div 10)) + n mod 10"
      using False by (subst str_nat.simps) simp
    also have "\<dots> = 10 * (n div 10) + n mod 10"
      using 1[OF False] by simp
    also have "\<dots> = n" by simp
    finally show ?thesis .
  qed
qed

lemma split_where_nonempty: "split_where sep s \<noteq> []"
  by (induction s) (auto split: list.splits)

lemma split_on_join: "concat (map (\<lambda>w. w @ [sep]) (split_on sep s)) = s @ [sep]"
  unfolding split_on_def
proof (induction s)
  case Nil
  then show ?case by simp
next
  case (Cons c cs)
  obtain w ws where f: "split_where (\<lambda>c. c = sep) cs = w # ws"
    using split_where_nonempty[of "\<lambda>c. c = sep" cs] by (cases "split_where (\<lambda>c. c = sep) cs") auto
  show ?case
  proof (cases "c = sep")
    case True
    with Cons show ?thesis by simp
  next
    case False
    with Cons f show ?thesis by simp
  qed
qed

lemma split_on_pieces: "list_all (\<lambda>w. sep \<notin> set w) (split_on sep s)"
  unfolding split_on_def
proof (induction s)
  case Nil
  then show ?case by simp
next
  case (Cons c cs)
  obtain w ws where f: "split_where (\<lambda>c. c = sep) cs = w # ws"
    using split_where_nonempty[of "\<lambda>c. c = sep" cs] by (cases "split_where (\<lambda>c. c = sep) cs") auto
  with Cons show ?case by (cases "c = sep") auto
qed

lemma startswith_one: "startswith r [c] = (\<exists>t. r = c # t)"
  by (cases r) (auto simp: startswith_def)

lemma split_where_pieces:
  "w \<in> set (split_where sep s) \<Longrightarrow> c \<in> set w \<Longrightarrow> c \<in> set s \<and> \<not> sep c"
proof (induction s arbitrary: w)
  case Nil
  then show ?case by simp
next
  case (Cons a s)
  show ?case
  proof (cases "sep a")
    case True
    with Cons.prems have "w \<in> set (split_where sep s)" by auto
    from Cons.IH[OF this Cons.prems(2)] show ?thesis by simp
  next
    case False
    obtain v vs where f: "split_where sep s = v # vs"
      using split_where_nonempty[of sep s] by (cases "split_where sep s") auto
    with False Cons.prems have "w = a # v \<or> w \<in> set vs" by auto
    then show ?thesis
    proof
      assume "w = a # v"
      with Cons.prems(2) have "c = a \<or> c \<in> set v" by auto
      then show ?thesis
        using False Cons.IH[of v] f by auto
    next
      assume "w \<in> set vs"
      then have "w \<in> set (split_where sep s)" by (simp add: f)
      from Cons.IH[OF this Cons.prems(2)] show ?thesis by simp
    qed
  qed
qed

lemma strip_subset: "c \<in> set (strip py s) \<Longrightarrow> c \<in> set s"
  by (auto simp: strip_def dest!: set_dropWhileD)

section \<open>What the Git class answers\<close>

text \<open>
  \<open>ref_exists\<close> gives one answer for every name, so the filter of \<^verbatim>\<open>_fix_ring\<close> keeps the
  whole ring or nothing of it. Where \<^verbatim>\<open>git branch\<close> succeeds, no entry is removed.
\<close>

lemma filter_ref_exists:
  "filter (ref_exists sp) r
     = (if returncode (sp [''git'', ''branch'', ''--no-color'']) = 0 then r else [])"
  by (simp add: ref_exists_def u_ref_exists_def u_run_with_status_def)

lemma fix_ring_removes_nothing:
  assumes ok: "returncode (sp [''git'', ''branch'', ''--no-color'']) = 0"
    and inv: "ring_inv (stack s)"
  shows "\<exists>s'. u_fix_ring sp s branch = Inr s' \<and> set (ring (stack s)) \<subseteq> set (ring (stack s'))"
proof -
  from current_total_on_inv[OF inv] obtain x where x: "current s = Inr (x, s)" by blast
  have keep: "filter (ref_exists sp) (ring (stack s)) = ring (stack s)"
    using ok by (simp add: filter_ref_exists)
  have s1: "s\<lparr>stack := (stack s)\<lparr>ring := ring (stack s)\<rparr>\<rparr> = s" by simp
  show ?thesis
  proof (cases "ring (stack s) = [] \<or> Some branch \<noteq> x")
    case False
    then have "u_fix_ring sp s branch = Inr (save s)"
      using x keep by (simp add: u_fix_ring_def is_empty_def Let_def)
    then show ?thesis by (simp add: save_def)
  next
    case True
    have u: "u_fix_ring sp s branch
        = (case push s branch of Inl e \<Rightarrow> Inl e | Inr s2 \<Rightarrow> Inr (save s2))"
      using x keep True by (auto simp: u_fix_ring_def is_empty_def Let_def)
    show ?thesis
    proof (cases "branch \<in> set (ring (stack s))")
      case present: True
      from push_present[OF this] obtain k where
        "push s branch = Inr (save (s\<lparr>stack := (stack s)\<lparr>position := Some (int k)\<rparr>\<rparr>))"
        by blast
      with u show ?thesis by (simp add: save_def)
    next
      case absent: False
      obtain k where k: "py_insert (ring (stack s))
          (case position (stack s) of Some i \<Rightarrow> i + 1 | None \<Rightarrow> 0) branch
          = take k (ring (stack s)) @ branch # drop k (ring (stack s))"
        unfolding py_insert_def Let_def by blast
      have "set (ring (stack s)) \<subseteq> set (take k (ring (stack s)) @ branch # drop k (ring (stack s)))"
      proof
        fix y assume "y \<in> set (ring (stack s))"
        then have "y \<in> set (take k (ring (stack s)) @ drop k (ring (stack s)))"
          by (simp only: append_take_drop_id)
        then have "y \<in> set (take k (ring (stack s))) \<or> y \<in> set (drop k (ring (stack s)))"
          by (simp only: set_append Un_iff)
        then show "y \<in> set (take k (ring (stack s)) @ branch # drop k (ring (stack s)))"
          by auto
      qed
      with u push_absent[OF absent] k show ?thesis by (simp add: save_def)
    qed
  qed
qed

section \<open>Selection at the prompt\<close>

lemma lookup_branches_error:
  "lookup_branches py r bs = Inl e \<Longrightarrow> e = ValueError \<or> e = IndexError"
proof (induction bs arbitrary: e)
  case Nil
  then show ?case by simp
next
  case (Cons b bs)
  then show ?case
    by (auto simp: py_int_def py_getitem_def split: sum.splits if_splits option.splits)
qed

lemma selection_error_is_Exception:
  assumes "selection py r resp = Inl e"
  shows "is_Exception e"
proof (cases "match_selection py resp")
  case None
  with assms show ?thesis by (simp add: selection_def is_Exception_def)
next
  case (Some g)
  obtain g1 g2 where g: "g = (g1, g2)" by (cases g)
  from assms Some g have "lookup_branches py r (py_split py (strip py g2)) = Inl e"
    by (simp add: selection_def split: sum.splits)
  from lookup_branches_error[OF this] show ?thesis
    by (auto simp: is_Exception_def)
qed

lemma print_ring_selection_error:
  assumes "selection py (ring (stack s)) (strip py l) = Inl e"
  shows "print_ring py pop_opts jump s branch (Some l) = (None, s)"
  using assms selection_error_is_Exception[OF assms]
  by (simp add: print_ring_def Let_def)

lemma foldl_digits_nonneg:
  "0 \<le> a \<Longrightarrow> 0 \<le> foldl (\<lambda>a c. 10 * a + digit_value py c) a b"
proof (induction b arbitrary: a)
  case Nil
  then show ?case by simp
next
  case (Cons c b)
  have "0 \<le> digit_value py c"
    by (simp add: digit_value_def split: option.splits)
  with Cons.prems have "0 \<le> 10 * a + digit_value py c" by simp
  from Cons.IH[OF this] show ?case by simp
qed

lemma py_int_nonneg: "py_int py b = Inr n \<Longrightarrow> 0 \<le> n"
  by (auto simp: py_int_def foldl_digits_nonneg split: if_splits)

lemma py_getitem_fails:
  assumes "0 \<le> n"
  shows "(\<exists>e. py_getitem r (n - 1) = Inl e) = (int (length r) < n \<or> (n = 0 \<and> r = []))"
proof (cases "r = []")
  case True
  then show ?thesis
    using assms by (auto simp: py_getitem_def py_index_def Let_def split: option.splits)
next
  case False
  define m where "m = int (length r)"
  have m: "0 < m" using False by (simp add: m_def)
  have "(py_index r (n - 1) = None) = (m < n)"
    using assms m unfolding py_index_def Let_def m_def[symmetric] by auto
  then show ?thesis
    using False by (auto simp: py_getitem_def m_def split: option.splits)
qed

lemma lookup_branches_fails_iff:
  "(\<exists>e. lookup_branches py r bs = Inl e)
     = (\<exists>b\<in>set bs. (\<exists>e. py_int py b = Inl e)
          \<or> (\<exists>n. py_int py b = Inr n \<and> (int (length r) < n \<or> (n = 0 \<and> r = []))))"
proof (induction bs)
  case Nil
  then show ?case by simp
next
  case (Cons a bs)
  show ?case
  proof (cases "py_int py a")
    case (Inl e)
    then show ?thesis by simp
  next
    case (Inr n)
    then have n: "0 \<le> n" by (rule py_int_nonneg)
    show ?thesis
    proof (cases "py_getitem r (n - 1)")
      case (Inl e)
      then have "int (length r) < n \<or> (n = 0 \<and> r = [])"
        using py_getitem_fails[OF n, of r] by auto
      with Inl Inr show ?thesis by simp
    next
      case getr: (Inr x)
      then have no: "\<not> (int (length r) < n \<or> (n = 0 \<and> r = []))"
        using py_getitem_fails[OF n, of r] by auto
      have step: "(\<exists>e. lookup_branches py r (a # bs) = Inl e)
          = (\<exists>e. lookup_branches py r bs = Inl e)"
        using Inr getr by (simp split: sum.splits)
      have head: "\<not> ((\<exists>e. py_int py a = Inl e)
          \<or> (\<exists>n. py_int py a = Inr n \<and> (int (length r) < n \<or> (n = 0 \<and> r = []))))"
        using Inr no by simp
      show ?thesis
        unfolding step Cons.IH using head by auto
    qed
  qed
qed

lemma selection_raises_iff:
  "(\<exists>e. selection py r resp = Inl e)
     = (case match_selection py resp of
          None \<Rightarrow> True
        | Some (g1, g2) \<Rightarrow>
            (\<exists>b\<in>set (py_split py (strip py g2)). (\<exists>e. py_int py b = Inl e)
               \<or> (\<exists>n. py_int py b = Inr n \<and> (int (length r) < n \<or> (n = 0 \<and> r = [])))))"
proof (cases "match_selection py resp")
  case None
  then show ?thesis by (simp add: selection_def)
next
  case (Some g)
  obtain g1 g2 where g: "g = (g1, g2)" by (cases g)
  have "(\<exists>e. selection py r resp = Inl e)
      = (\<exists>e. lookup_branches py r (py_split py (strip py g2)) = Inl e)"
    using Some g by (simp add: selection_def split: sum.splits)
  with lookup_branches_fails_iff[of py r "py_split py (strip py g2)"]
  show ?thesis using Some g by simp
qed

lemma match_selection_group1:
  "match_selection py resp = Some (g1, g2) \<Longrightarrow> g1 = [] \<or> g1 = lit ''d'' \<or> g1 = lit ''D''"
  by (auto simp: match_selection_def Let_def lit_def split: list.splits if_splits)

lemma more_numbers_nil: "more_numbers py [] = []"
  by (subst more_numbers.simps) simp

lemma more_numbers_chars: "c \<in> set (more_numbers py s) \<Longrightarrow> is_blank c \<or> is_digit py c"
proof (induction py s rule: more_numbers.induct)
  case (1 py s)
  show ?case
  proof (cases "takeWhile is_blank s \<noteq> [] \<and> takeWhile (is_digit py) (dropWhile is_blank s) \<noteq> []")
    case True
    with "1.prems" have "c \<in> set (takeWhile is_blank s)
        \<or> c \<in> set (takeWhile (is_digit py) (dropWhile is_blank s))
        \<or> c \<in> set (more_numbers py (dropWhile (is_digit py) (dropWhile is_blank s)))"
      by (subst (asm) more_numbers.simps) auto
    then show ?thesis
      using "1.IH"[OF True] by (auto dest: set_takeWhileD)
  next
    case False
    with "1.prems" show ?thesis by (subst (asm) more_numbers.simps) auto
  qed
qed

lemma match_selection_chars:
  assumes "match_selection py resp = Some (g1, g2)" "c \<in> set g2"
  shows "is_blank c \<or> is_digit py c"
  using assms
  by (auto simp: match_selection_def Let_def split: if_splits
      dest: set_takeWhileD more_numbers_chars)

text \<open>
  In an interpreter for which the space is whitespace, every token handed to \<^verbatim>\<open>int()\<close> is
  a non-empty run of decimal digits.
\<close>

lemma tokens_are_digits:
  assumes "isspace py 32" "match_selection py resp = Some (g1, g2)"
    "b \<in> set (py_split py (strip py g2))"
  shows "b \<noteq> [] \<and> list_all (is_digit py) b"
proof -
  from assms(3) have ne: "b \<noteq> []" and f: "b \<in> set (split_where (isspace py) (strip py g2))"
    by (simp_all add: py_split_def)
  have "is_digit py c" if "c \<in> set b" for c
  proof -
    from split_where_pieces[OF f that] have "c \<in> set (strip py g2)" "\<not> isspace py c"
      by simp_all
    then have "c \<in> set g2" by (simp add: strip_subset)
    from match_selection_chars[OF assms(2) this] \<open>\<not> isspace py c\<close> assms(1)
    show ?thesis by (auto simp: is_blank_def)
  qed
  then have "list_all (is_digit py) b" by (simp add: list_all_iff)
  with ne show ?thesis by simp
qed

text \<open>
  CPython 3.11 on the code points below U+0085 and U+0660, and a line that starts with a
  no-break space and names its position with the Arabic-Indic digit two: the line is
  stripped, matched and acted on.
\<close>

lemma cpython_space:
  "c < 0x85 \<Longrightarrow> isspace cpython_3_11 c = (c \<in> {9, 10, 11, 12, 13, 28, 29, 30, 31, 32})"
  by (auto simp: cpython_3_11_def)

lemma cpython_decimal:
  "c < 0x660 \<Longrightarrow> decimal cpython_3_11 c = (if 48 \<le> c \<and> c < 58 then Some (c - 48) else None)"
  by (simp add: cpython_3_11_def)

lemma unicode_line_example:
  "print_ring cpython_3_11 (Pair None) (\<lambda>branch_i. Pair None)
       \<lparr>stack = \<lparr>ring = [''aaa'', ''bbb'', ''ccc''], position = Some 0\<rparr>,
        stack_file = \<lparr>ring = [''aaa'', ''bbb'', ''ccc''], position = Some 0\<rparr>\<rparr> ''aaa''
       (Some ([0xA0] @ lit ''d'' @ [0x662] @ [10]))
     = (None, \<lparr>stack = \<lparr>ring = [''aaa'', ''ccc''], position = Some 0\<rparr>,
               stack_file = \<lparr>ring = [''aaa'', ''ccc''], position = Some 0\<rparr>\<rparr>)"
proof -
  have d: "lit ''d'' = [100]"
    by (simp add: lit_def)
  have sp: "isspace cpython_3_11 0xA0" "isspace cpython_3_11 10" "\<not> isspace cpython_3_11 100"
    "\<not> isspace cpython_3_11 0x662"
    by (simp_all add: cpython_3_11_def)
  have dg: "decimal cpython_3_11 0x662 = Some 2"
    by (simp add: cpython_3_11_def)
  have s: "strip cpython_3_11 [0xA0, 100, 0x662, 10] = [100, 0x662]"
    "strip cpython_3_11 [0x662] = [0x662]"
    by (simp_all add: strip_def sp)
  have m: "match_selection cpython_3_11 [100, 0x662] = Some ([100], [0x662])"
    by (simp add: match_selection_def Let_def is_digit_def is_blank_def dg more_numbers_nil)
  have t: "py_split cpython_3_11 [0x662] = [[0x662]]"
    by (simp add: py_split_def sp)
  have i: "py_int cpython_3_11 [0x662] = Inr 2"
    by (simp add: py_int_def is_digit_def digit_value_def dg cpython_3_11_def)
  have l: "lower [100] = [100]"
    by (simp add: lower_def)
  have sel: "selection cpython_3_11 [''aaa'', ''bbb'', ''ccc''] [100, 0x662] = Inr ([100], [''bbb''])"
    by (simp add: selection_def m s t i l py_getitem_def py_index_def)
  show ?thesis
    by (simp add: print_ring_def d s sel save_def)
qed

lemma split_where_none: "\<forall>c\<in>set s. \<not> sep c \<Longrightarrow> split_where sep s = [s]"
  by (induction s) simp_all

lemma strip_none: "\<forall>c\<in>set s. \<not> isspace py c \<Longrightarrow> strip py s = s"
proof -
  assume a: "\<forall>c\<in>set s. \<not> isspace py c"
  then have 1: "dropWhile (isspace py) s = s"
    by (cases s) simp_all
  from a have 2: "dropWhile (isspace py) (rev s) = rev s"
    by (cases "rev s") (simp, metis dropWhile.simps(2) list.set_intros(1) set_rev)
  show ?thesis by (simp add: strip_def 1 2)
qed

lemma match_selection_digits:
  assumes "s \<noteq> []" and "\<forall>c\<in>set s. is_digit py c \<and> c \<noteq> 32 \<and> c \<noteq> 100 \<and> c \<noteq> 68"
  shows "match_selection py s = Some ([], s)"
proof -
  from assms obtain c cs where s: "s = c # cs" by (cases s) auto
  with assms have c: "c \<noteq> 100" "c \<noteq> 68" "\<not> is_blank c" by (simp_all add: is_blank_def)
  from assms have t: "takeWhile (is_digit py) s = s" "dropWhile (is_digit py) s = []"
    by simp_all
  from c s have b: "takeWhile is_blank s = []" "dropWhile is_blank s = s" by simp_all
  have g: "(case s of [] \<Rightarrow> [] | c # cs \<Rightarrow> if c = 100 \<or> c = 68 then [c] else []) = []"
    using s c by simp
  show ?thesis
    unfolding match_selection_def g Let_def
    using assms(1) by (simp add: t b more_numbers_nil)
qed

text \<open>
  A run of 4301 digits is matched as one number and refused by \<^verbatim>\<open>int()\<close> of CPython 3.11,
  whose limit is 4300 digits.
\<close>

lemma long_number_refused:
  "match_selection cpython_3_11 (strip cpython_3_11 (replicate 4301 49)) = Some ([], replicate 4301 49)
   \<and> replicate 4301 49 \<in> set (py_split cpython_3_11 (strip cpython_3_11 (replicate 4301 49)))
   \<and> py_int cpython_3_11 (replicate 4301 49) = Inl ValueError"
proof -
  have ns: "\<forall>c\<in>set (replicate 4301 (49::nat)). \<not> isspace cpython_3_11 c"
    by (simp add: cpython_space)
  have dg: "\<forall>c\<in>set (replicate 4301 (49::nat)). is_digit cpython_3_11 c \<and> c \<noteq> 32 \<and> c \<noteq> 100 \<and> c \<noteq> 68"
    by (simp add: is_digit_def cpython_decimal)
  have ne: "replicate 4301 (49::nat) \<noteq> []" by simp
  have s: "strip cpython_3_11 (replicate 4301 49) = replicate 4301 49"
    by (rule strip_none[OF ns])
  have 1: "match_selection cpython_3_11 (replicate 4301 49) = Some ([], replicate 4301 49)"
    by (rule match_selection_digits[OF ne dg])
  have 2: "py_split cpython_3_11 (replicate 4301 49) = [replicate 4301 49]"
    unfolding py_split_def split_where_none[OF ns] using ne by simp
  have la: "list_all (is_digit cpython_3_11) (replicate 4301 49)"
    using dg by (simp add: list_all_iff)
  have 3: "py_int cpython_3_11 (replicate 4301 49) = Inl ValueError"
    unfolding py_int_def using la ne by (simp add: cpython_3_11_def)
  show ?thesis by (simp only: s 1 2 3) simp
qed

section \<open>The claims about the Ring Stack\<close>

text \<open>
  Claim C1. On a record satisfying the invariants \<open>push\<close> returns. When the name is in the
  ring, the ring is unchanged and the position is an index at which the name stands. When
  it is absent, it is inserted at index position + 1 (index 0 when the position is
  \<open>None\<close>), the position becomes that index, \<open>current\<close> then returns the name, and the
  ring grows by exactly one element.
\<close>

theorem push_behaves_as_specified:
  assumes "ring_inv (stack s)"
  shows "\<exists>s'. push s name = Inr s' \<and>
           (if name \<in> set (ring (stack s)) then
              ring (stack s') = ring (stack s) \<and>
              (\<exists>k. position (stack s') = Some (int k) \<and> k < length (ring (stack s))
                   \<and> ring (stack s) ! k = name)
            else
              (\<exists>at. at = (case position (stack s) of None \<Rightarrow> 0 | Some p \<Rightarrow> nat (p + 1))
                 \<and> at \<le> length (ring (stack s))
                 \<and> ring (stack s') = take at (ring (stack s)) @ name # drop at (ring (stack s))
                 \<and> position (stack s') = Some (int at)
                 \<and> current s' = Inr (Some name, s')
                 \<and> length (ring (stack s')) = length (ring (stack s)) + 1))"
proof (cases "name \<in> set (ring (stack s))")
  case True
  from push_present[OF True] obtain k where
    "push s name = Inr (save (s\<lparr>stack := (stack s)\<lparr>position := Some (int k)\<rparr>\<rparr>))"
    "k < length (ring (stack s))" "ring (stack s) ! k = name" by blast
  with True show ?thesis by (simp add: save_def)
next
  case False
  define at where "at = (case position (stack s) of None \<Rightarrow> 0 | Some p \<Rightarrow> nat (p + 1))"
  define np where "np = (case position (stack s) of Some i \<Rightarrow> i + 1 | None \<Rightarrow> (0::int))"
  have np: "np = int at" "0 \<le> np" "np \<le> int (length (ring (stack s)))"
    using assms by (auto simp: np_def at_def ring_inv_def split: option.splits)
  have ins: "py_insert (ring (stack s)) np name = take at (ring (stack s)) @ name # drop at (ring (stack s))"
    using py_insert_valid[OF np(2,3)] np(1) by simp
  define s' where "s' = save (s\<lparr>stack := \<lparr>ring = py_insert (ring (stack s)) np name, position = Some np\<rparr>\<rparr>)"
  have p: "push s name = Inr s'"
    using push_absent[OF False] by (simp add: s'_def np_def)
  have r: "ring (stack s') = take at (ring (stack s)) @ name # drop at (ring (stack s))"
    and q: "position (stack s') = Some (int at)"
    using ins np(1) by (simp_all add: s'_def save_def)
  have le: "at \<le> length (ring (stack s))" using np by simp
  have len: "length (ring (stack s')) = length (ring (stack s)) + 1"
    using le by (simp add: r)
  have nth: "ring (stack s') ! at = name"
    using le by (simp add: r nth_append)
  have "current s' = Inr (Some (ring (stack s') ! nat (int at)), s')"
    by (rule current_valid[OF q]) (use len le in simp_all)
  with nth have c: "current s' = Inr (Some name, s')" by simp
  from False p r q le len c show ?thesis by (simp add: at_def)
qed

theorem push_behaves_as_specified_witness:
  "ring_inv (stack \<lparr>stack = \<lparr>ring = [''aaa'', ''bbb''], position = Some 0\<rparr>,
                    stack_file = \<lparr>ring = [''aaa'', ''bbb''], position = Some 0\<rparr>\<rparr>)
   \<and> (\<exists>s'. push \<lparr>stack = \<lparr>ring = [''aaa'', ''bbb''], position = Some 0\<rparr>,
                   stack_file = \<lparr>ring = [''aaa'', ''bbb''], position = Some 0\<rparr>\<rparr> ''ccc'' = Inr s'
          \<and> ring (stack s') = [''aaa'', ''ccc'', ''bbb'']
          \<and> position (stack s') = Some 1
          \<and> current s' = Inr (Some ''ccc'', s'))"
proof -
  have h: "ring_inv (stack \<lparr>stack = \<lparr>ring = [''aaa'', ''bbb''], position = Some 0\<rparr>,
                    stack_file = \<lparr>ring = [''aaa'', ''bbb''], position = Some 0\<rparr>\<rparr>)"
    by (simp add: ring_inv_def)
  show ?thesis
    using h push_behaves_as_specified[OF h, of "''ccc''"] by auto
qed

text \<open>
  Claim C2. On a record satisfying the invariants whose position is not \<open>None\<close>, \<open>pop\<close>
  returns the element at the position and removes it. The position becomes \<open>None\<close> when
  the ring became empty and (position - 1) mod the new length otherwise, so that \<open>current\<close>
  after the pop is the element one \<open>back'\<close> step from the old position on the ring without the
  popped element: the new last element when the first one was popped.
\<close>

theorem pop_behaves_as_specified:
  assumes "ring_inv (stack s)" and "position (stack s) = Some p"
  shows "\<exists>s'. pop s = Inr (ring (stack s) ! nat p, s')
           \<and> ring (stack s') = take (nat p) (ring (stack s)) @ drop (Suc (nat p)) (ring (stack s))
           \<and> length (ring (stack s')) + 1 = length (ring (stack s))
           \<and> (if ring (stack s') = [] then
                position (stack s') = None \<and> current s' = Inr (None, s')
              else
                position (stack s') = Some ((p - 1) mod int (length (ring (stack s'))))
                \<and> (\<exists>x t. back' \<lparr>stack = \<lparr>ring = ring (stack s'), position = Some p\<rparr>,
                                 stack_file = f\<rparr> = Inr (Some x, t)
                         \<and> current s' = Inr (Some x, s'))
                \<and> (if p = 0 then current s' = Inr (Some (last (ring (stack s'))), s')
                    else current s' = Inr (Some (ring (stack s) ! nat (p - 1)), s')))"
proof -
  define r where "r = ring (stack s)"
  define r' where "r' = take (nat p) r @ drop (Suc (nat p)) r"
  from ring_inv_Some[OF assms] have b: "0 \<le> p" "p < int (length r)" by (simp_all add: r_def)
  have len: "length r' + 1 = length r"
    using b by (simp add: r'_def)
  define s' where "s' = save (s\<lparr>stack := \<lparr>ring = r',
      position = (if r' \<noteq> [] then Some ((p - 1) mod int (length r')) else None)\<rparr>\<rparr>)"
  have p: "pop s = Inr (r ! nat p, s')"
    using pop_valid[OF assms(2), folded r_def, OF b] by (simp add: s'_def r'_def r_def)
  have r: "ring (stack s') = r'" by (simp add: s'_def save_def)
  have concl: "if r' = [] then
                position (stack s') = None \<and> current s' = Inr (None, s')
              else
                position (stack s') = Some ((p - 1) mod int (length r'))
                \<and> (\<exists>x t. back' \<lparr>stack = \<lparr>ring = r', position = Some p\<rparr>,
                                 stack_file = f\<rparr> = Inr (Some x, t)
                         \<and> current s' = Inr (Some x, s'))
                \<and> (if p = 0 then current s' = Inr (Some (last r'), s')
                    else current s' = Inr (Some (r ! nat (p - 1)), s'))"
  proof (cases "r' = []")
    case True
    then have "position (stack s') = None" by (simp add: s'_def save_def)
    moreover have "current s' = Inr (None, s')" using True r by (simp add: current_empty)
    ultimately show ?thesis using True by simp
  next
    case False
    define q where "q = (p - 1) mod int (length r')"
    have pos: "0 < int (length r')" using False by simp
    have qb: "0 \<le> q" "q < int (length r')"
      unfolding q_def using pos by (rule pos_mod_sign, rule pos_mod_bound)
    have qp: "position (stack s') = Some q" using False by (simp add: s'_def save_def q_def)
    have c: "current s' = Inr (Some (r' ! nat q), s')"
      using current_valid[OF qp qb(1)] qb(2) r by simp
    have bk: "\<exists>t. back' \<lparr>stack = \<lparr>ring = r', position = Some p\<rparr>, stack_file = f\<rparr>
        = Inr (Some (r' ! nat q), t)"
      using back_valid[of "\<lparr>stack = \<lparr>ring = r', position = Some p\<rparr>, stack_file = f\<rparr>" p]
        False by (simp add: q_def)
    have wrap: "if p = 0 then current s' = Inr (Some (last r'), s')
                else current s' = Inr (Some (r ! nat (p - 1)), s')"
    proof (cases "p = 0")
      case True
      have "(- 1) mod int (length r') = int (length r') - 1"
        using pos by (simp add: zmod_minus1)
      then have "nat q = length r' - 1" using True by (simp add: q_def)
      then have "r' ! nat q = last r'"
        using False by (simp add: last_conv_nth)
      with c True show ?thesis by simp
    next
      case F: False
      then have p0: "0 < p" using b by simp
      then have "p - 1 < int (length r')" "0 \<le> p - 1" using b len by simp_all
      then have "q = p - 1" by (simp add: q_def)
      moreover have "r' ! nat (p - 1) = r ! nat (p - 1)"
        using p0 b by (simp add: r'_def nth_append)
      ultimately show ?thesis using c F by simp
    qed
    from False qp c bk wrap show ?thesis by (auto simp: q_def)
  qed
  have 1: "pop s = Inr (ring (stack s) ! nat p, s')"
    using p by (simp only: r_def)
  have 2: "ring (stack s') = take (nat p) (ring (stack s)) @ drop (Suc (nat p)) (ring (stack s))"
    using r by (simp only: r'_def r_def)
  have 3: "length (ring (stack s')) + 1 = length (ring (stack s))"
    using len by (simp only: r r_def)
  have 4: "if ring (stack s') = [] then
                position (stack s') = None \<and> current s' = Inr (None, s')
              else
                position (stack s') = Some ((p - 1) mod int (length (ring (stack s'))))
                \<and> (\<exists>x t. back' \<lparr>stack = \<lparr>ring = ring (stack s'), position = Some p\<rparr>,
                                 stack_file = f\<rparr> = Inr (Some x, t)
                         \<and> current s' = Inr (Some x, s'))
                \<and> (if p = 0 then current s' = Inr (Some (last (ring (stack s'))), s')
                    else current s' = Inr (Some (ring (stack s) ! nat (p - 1)), s'))"
    using concl by (simp only: r r_def)
  from 1 2 3 4 show ?thesis by blast
qed

theorem pop_behaves_as_specified_witness:
  "ring_inv (stack \<lparr>stack = \<lparr>ring = [''aaa'', ''bbb'', ''ccc''], position = Some 0\<rparr>,
                    stack_file = \<lparr>ring = [''aaa'', ''bbb'', ''ccc''], position = Some 0\<rparr>\<rparr>)
   \<and> (\<exists>s'. pop \<lparr>stack = \<lparr>ring = [''aaa'', ''bbb'', ''ccc''], position = Some 0\<rparr>,
                  stack_file = \<lparr>ring = [''aaa'', ''bbb'', ''ccc''], position = Some 0\<rparr>\<rparr>
             = Inr (''aaa'', s')
          \<and> ring (stack s') = [''bbb'', ''ccc'']
          \<and> position (stack s') = Some 1
          \<and> current s' = Inr (Some ''ccc'', s'))"
proof -
  have h: "ring_inv (stack \<lparr>stack = \<lparr>ring = [''aaa'', ''bbb'', ''ccc''], position = Some 0\<rparr>,
                    stack_file = \<lparr>ring = [''aaa'', ''bbb'', ''ccc''], position = Some 0\<rparr>\<rparr>)"
    by (simp add: ring_inv_def)
  show ?thesis
    using h pop_behaves_as_specified[OF h, of 0 "\<lparr>ring = [], position = None\<rparr>"] by auto
qed

text \<open>
  Claim C4. \<open>push\<close>, \<open>pop\<close>, \<open>forward\<close> and \<open>back'\<close> applied to a record satisfying the
  invariants return a record that satisfies them; \<open>pop\<close> returns none only when the
  position is \<open>None\<close>.
\<close>

theorem operations_preserve_invariants:
  assumes "ring_inv (stack s)"
  shows "(\<exists>s'. push s name = Inr s' \<and> ring_inv (stack s'))
       \<and> (case pop s of Inl e \<Rightarrow> position (stack s) = None | Inr (x, s') \<Rightarrow> ring_inv (stack s'))
       \<and> (\<exists>x s'. forward s = Inr (x, s') \<and> ring_inv (stack s'))
       \<and> (\<exists>x s'. back' s = Inr (x, s') \<and> ring_inv (stack s'))"
  using push_preserves_inv[OF assms, of name] pop_preserves_inv[OF assms]
    forward_preserves_inv[OF assms] back_preserves_inv[OF assms]
  by blast

theorem operations_preserve_invariants_witness:
  "ring_inv (stack \<lparr>stack = \<lparr>ring = [''aaa'', ''bbb''], position = Some 1\<rparr>,
                    stack_file = \<lparr>ring = [''aaa'', ''bbb''], position = Some 1\<rparr>\<rparr>)
   \<and> (\<exists>s'. push \<lparr>stack = \<lparr>ring = [''aaa'', ''bbb''], position = Some 1\<rparr>,
                   stack_file = \<lparr>ring = [''aaa'', ''bbb''], position = Some 1\<rparr>\<rparr> ''ccc'' = Inr s'
          \<and> ring_inv (stack s'))
   \<and> (\<exists>x s'. pop \<lparr>stack = \<lparr>ring = [''aaa'', ''bbb''], position = Some 1\<rparr>,
                   stack_file = \<lparr>ring = [''aaa'', ''bbb''], position = Some 1\<rparr>\<rparr> = Inr (x, s')
          \<and> ring_inv (stack s'))
   \<and> (\<exists>x s'. forward \<lparr>stack = \<lparr>ring = [''aaa'', ''bbb''], position = Some 1\<rparr>,
                   stack_file = \<lparr>ring = [''aaa'', ''bbb''], position = Some 1\<rparr>\<rparr> = Inr (x, s')
          \<and> ring_inv (stack s'))
   \<and> (\<exists>x s'. back' \<lparr>stack = \<lparr>ring = [''aaa'', ''bbb''], position = Some 1\<rparr>,
                   stack_file = \<lparr>ring = [''aaa'', ''bbb''], position = Some 1\<rparr>\<rparr> = Inr (x, s')
          \<and> ring_inv (stack s'))"
proof -
  have h: "ring_inv (stack \<lparr>stack = \<lparr>ring = [''aaa'', ''bbb''], position = Some 1\<rparr>,
                    stack_file = \<lparr>ring = [''aaa'', ''bbb''], position = Some 1\<rparr>\<rparr>)"
    by (simp add: ring_inv_def)
  have p: "\<exists>x s'. pop \<lparr>stack = \<lparr>ring = [''aaa'', ''bbb''], position = Some 1\<rparr>,
                   stack_file = \<lparr>ring = [''aaa'', ''bbb''], position = Some 1\<rparr>\<rparr> = Inr (x, s')"
    by (simp add: pop_def py_getitem_def py_delitem_def py_index_def)
  show ?thesis
    using h p operations_preserve_invariants[OF h, of "''ccc''"] by auto
qed

text \<open>
  Claim C5. On a record satisfying the invariants with a ring of at least one element,
  \<open>back'\<close> followed by \<open>forward\<close> restores the position, and so does \<open>forward\<close> followed
  by \<open>back'\<close>; \<open>forward\<close> repeated as many times as the ring is long returns to the original
  position and current element. The ring is the same throughout.
\<close>

theorem forward_back_mutual_inverses:
  assumes "ring_inv (stack s)" and "ring (stack s) \<noteq> []"
  shows "(\<exists>x s1 y s2. back' s = Inr (x, s1) \<and> forward s1 = Inr (y, s2)
            \<and> position (stack s2) = position (stack s) \<and> ring (stack s2) = ring (stack s))
       \<and> (\<exists>x s1 y s2. forward s = Inr (x, s1) \<and> back' s1 = Inr (y, s2)
            \<and> position (stack s2) = position (stack s) \<and> ring (stack s2) = ring (stack s))
       \<and> (\<exists>s'. forward_times (length (ring (stack s))) s = Inr s'
            \<and> position (stack s') = position (stack s) \<and> ring (stack s') = ring (stack s)
            \<and> (\<exists>x. current s = Inr (Some x, s) \<and> current s' = Inr (Some x, s')))"
proof -
  define n where "n = int (length (ring (stack s)))"
  from assms obtain p where p: "position (stack s) = Some p" "0 \<le> p" "p < n"
    by (auto simp: ring_inv_def n_def split: option.splits)
  have npos: "0 < n" using p by simp
  have bf: "((p - 1) mod n + 1) mod n = p" 
    using p by (simp add: mod_add_left_eq)
  have fb: "((p + 1) mod n - 1) mod n = p"
    using p by (simp add: mod_diff_left_eq)
  define sb where "sb = save (s\<lparr>stack := (stack s)\<lparr>position := Some ((p - 1) mod n)\<rparr>\<rparr>)"
  define sf where "sf = save (s\<lparr>stack := (stack s)\<lparr>position := Some ((p + 1) mod n)\<rparr>\<rparr>)"
  have sbp: "position (stack sb) = Some ((p - 1) mod n)" and sbr: "ring (stack sb) = ring (stack s)"
    and sfp: "position (stack sf) = Some ((p + 1) mod n)" and sfr: "ring (stack sf) = ring (stack s)"
    by (simp_all add: sb_def sf_def save_def)
  define sbf where "sbf = save (sb\<lparr>stack := (stack sb)\<lparr>position :=
      Some (((p - 1) mod n + 1) mod int (length (ring (stack sb))))\<rparr>\<rparr>)"
  define sfb where "sfb = save (sf\<lparr>stack := (stack sf)\<lparr>position :=
      Some (((p + 1) mod n - 1) mod int (length (ring (stack sf))))\<rparr>\<rparr>)"
  have b1: "back' s = Inr (Some (ring (stack s) ! nat ((p - 1) mod n)), sb)"
    unfolding sb_def n_def by (rule back_valid[OF p(1) assms(2)])
  have f1: "forward sb = Inr (Some (ring (stack sb) !
      nat (((p - 1) mod n + 1) mod int (length (ring (stack sb))))), sbf)"
    unfolding sbf_def by (rule forward_valid[OF sbp]) (simp add: sbr assms(2))
  have r1: "position (stack sbf) = position (stack s)" "ring (stack sbf) = ring (stack s)"
    using bf by (simp_all add: sbf_def save_def sbr n_def p(1))
  have 1: "\<exists>x s1 y s2. back' s = Inr (x, s1) \<and> forward s1 = Inr (y, s2)
            \<and> position (stack s2) = position (stack s) \<and> ring (stack s2) = ring (stack s)"
    using b1 f1 r1 by blast
  have f2: "forward s = Inr (Some (ring (stack s) ! nat ((p + 1) mod n)), sf)"
    unfolding sf_def n_def by (rule forward_valid[OF p(1) assms(2)])
  have b2: "back' sf = Inr (Some (ring (stack sf) !
      nat (((p + 1) mod n - 1) mod int (length (ring (stack sf))))), sfb)"
    unfolding sfb_def by (rule back_valid[OF sfp]) (simp add: sfr assms(2))
  have r2: "position (stack sfb) = position (stack s)" "ring (stack sfb) = ring (stack s)"
    using fb by (simp_all add: sfb_def save_def sfr n_def p(1))
  have 2: "\<exists>x s1 y s2. forward s = Inr (x, s1) \<and> back' s1 = Inr (y, s2)
            \<and> position (stack s2) = position (stack s) \<and> ring (stack s2) = ring (stack s)"
    using f2 b2 r2 by blast
  from forward_times_position[OF p(1,2) p(3)[unfolded n_def], of "length (ring (stack s))"]
  obtain s' where s': "forward_times (length (ring (stack s))) s = Inr s'"
    "ring (stack s') = ring (stack s)" "position (stack s') = Some ((p + n) mod n)"
    by (auto simp: n_def)
  have pn: "(p + n) mod n = p" using p by simp
  have c: "current s = Inr (Some (ring (stack s) ! nat p), s)"
    by (rule current_valid[OF p(1,2) p(3)[unfolded n_def]])
  have c': "current s' = Inr (Some (ring (stack s) ! nat p), s')"
    using current_valid[of s' p] s' pn p by (simp add: n_def)
  have 3: "\<exists>s'. forward_times (length (ring (stack s))) s = Inr s'
            \<and> position (stack s') = position (stack s) \<and> ring (stack s') = ring (stack s)
            \<and> (\<exists>x. current s = Inr (Some x, s) \<and> current s' = Inr (Some x, s'))"
    using s' pn p(1) c c' by auto
  from 1 2 3 show ?thesis by blast
qed

theorem forward_back_mutual_inverses_witness:
  "ring_inv (stack \<lparr>stack = \<lparr>ring = [''aaa'', ''bbb'', ''ccc''], position = Some 2\<rparr>,
                    stack_file = \<lparr>ring = [''aaa'', ''bbb'', ''ccc''], position = Some 2\<rparr>\<rparr>)
   \<and> ring (stack \<lparr>stack = \<lparr>ring = [''aaa'', ''bbb'', ''ccc''], position = Some 2\<rparr>,
                    stack_file = \<lparr>ring = [''aaa'', ''bbb'', ''ccc''], position = Some 2\<rparr>\<rparr>) \<noteq> []
   \<and> (\<exists>s'. forward_times 3 \<lparr>stack = \<lparr>ring = [''aaa'', ''bbb'', ''ccc''], position = Some 2\<rparr>,
                    stack_file = \<lparr>ring = [''aaa'', ''bbb'', ''ccc''], position = Some 2\<rparr>\<rparr> = Inr s'
          \<and> position (stack s') = Some 2 \<and> current s' = Inr (Some ''ccc'', s'))"
proof -
  let ?S = "\<lparr>stack = \<lparr>ring = [''aaa'', ''bbb'', ''ccc''], position = Some 2\<rparr>,
             stack_file = \<lparr>ring = [''aaa'', ''bbb'', ''ccc''], position = Some 2\<rparr>\<rparr>"
  have h: "ring_inv (stack ?S)"
    by (simp add: ring_inv_def)
  have n: "ring (stack ?S) \<noteq> []"
    by simp
  have c: "current ?S = Inr (Some ''ccc'', ?S)"
    by (simp add: current_def py_getitem_def py_index_def)
  have l: "length (ring (stack ?S)) = 3"
    by simp
  from forward_back_mutual_inverses[OF h n] obtain s' x where
    a: "forward_times (length (ring (stack ?S))) ?S = Inr s'"
       "position (stack s') = position (stack ?S)"
       "current ?S = Inr (Some x, ?S)" "current s' = Inr (Some x, s')"
    by blast
  from a(3) c have x: "x = ''ccc''" by simp
  have "forward_times 3 ?S = Inr s'" using a(1) by (simp only: l)
  moreover have "position (stack s') = Some 2" using a(2) by simp
  moreover have "current s' = Inr (Some ''ccc'', s')" using a(4) x by simp
  ultimately show ?thesis using h n by blast
qed




text \<open>
  Claim C7, as amended. \<open>current\<close> returns the element at the position when the invariants
  hold, \<open>None\<close> on an empty ring, and \<open>None\<close> when the position is an integer at or beyond
  the length of the ring. Whatever it returns, the Stack is the one it was given. It does
  raise on a non-empty ring whose position is \<open>None\<close> or lies below minus the length,
  and only then.
\<close>

theorem current_defensive_read:
  "(ring_inv (stack s) \<and> position (stack s) = Some p \<longrightarrow>
      current s = Inr (Some (ring (stack s) ! nat p), s))
   \<and> (ring (stack s) = [] \<longrightarrow> current s = Inr (None, s))
   \<and> (position (stack s) = Some p \<and> int (length (ring (stack s))) \<le> p \<longrightarrow>
        current s = Inr (None, s))
   \<and> (\<forall>x s'. current s = Inr (x, s') \<longrightarrow> s' = s)
   \<and> ((\<exists>e. current s = Inl e) =
        (ring (stack s) \<noteq> [] \<and>
          (case position (stack s) of
             None \<Rightarrow> True
           | Some i \<Rightarrow> i < - int (length (ring (stack s))))))"
proof -
  have 1: "ring_inv (stack s) \<and> position (stack s) = Some p \<longrightarrow>
      current s = Inr (Some (ring (stack s) ! nat p), s)"
    using ring_inv_Some[of "stack s" p] current_valid[of s p] by blast
  have 2: "ring (stack s) = [] \<longrightarrow> current s = Inr (None, s)"
    by (simp add: current_empty)
  have 3: "position (stack s) = Some p \<and> int (length (ring (stack s))) \<le> p \<longrightarrow>
        current s = Inr (None, s)"
    by (auto simp: current_def)
  have 4: "\<forall>x s'. current s = Inr (x, s') \<longrightarrow> s' = s"
    by (auto simp: current_def split: if_splits option.splits sum.splits)
  have 5: "(\<exists>e. current s = Inl e) =
        (ring (stack s) \<noteq> [] \<and>
          (case position (stack s) of
             None \<Rightarrow> True
           | Some i \<Rightarrow> i < - int (length (ring (stack s)))))"
    by (auto simp: current_def py_getitem_def py_index_def Let_def
          split: if_splits option.splits sum.splits)
  from 1 2 3 4 5 show ?thesis by blast
qed

theorem current_defensive_read_witness:
  "ring_inv (stack \<lparr>stack = \<lparr>ring = [''aaa'', ''bbb''], position = Some 1\<rparr>,
                    stack_file = \<lparr>ring = [''aaa'', ''bbb''], position = Some 1\<rparr>\<rparr>)
   \<and> current \<lparr>stack = \<lparr>ring = [''aaa'', ''bbb''], position = Some 1\<rparr>,
               stack_file = \<lparr>ring = [''aaa'', ''bbb''], position = Some 1\<rparr>\<rparr>
       = Inr (Some ''bbb'', \<lparr>stack = \<lparr>ring = [''aaa'', ''bbb''], position = Some 1\<rparr>,
                             stack_file = \<lparr>ring = [''aaa'', ''bbb''], position = Some 1\<rparr>\<rparr>)
   \<and> current \<lparr>stack = \<lparr>ring = [], position = None\<rparr>,
               stack_file = \<lparr>ring = [], position = None\<rparr>\<rparr>
       = Inr (None, \<lparr>stack = \<lparr>ring = [], position = None\<rparr>,
                     stack_file = \<lparr>ring = [], position = None\<rparr>\<rparr>)
   \<and> current \<lparr>stack = \<lparr>ring = [''aaa'', ''bbb''], position = Some 5\<rparr>,
               stack_file = \<lparr>ring = [''aaa'', ''bbb''], position = Some 5\<rparr>\<rparr>
       = Inr (None, \<lparr>stack = \<lparr>ring = [''aaa'', ''bbb''], position = Some 5\<rparr>,
                     stack_file = \<lparr>ring = [''aaa'', ''bbb''], position = Some 5\<rparr>\<rparr>)"
proof -
  let ?A = "\<lparr>stack = \<lparr>ring = [''aaa'', ''bbb''], position = Some 1\<rparr>,
             stack_file = \<lparr>ring = [''aaa'', ''bbb''], position = Some 1\<rparr>\<rparr>"
  let ?B = "\<lparr>stack = \<lparr>ring = [], position = None\<rparr>,
             stack_file = \<lparr>ring = [], position = None\<rparr>\<rparr>"
  let ?C = "\<lparr>stack = \<lparr>ring = [''aaa'', ''bbb''], position = Some 5\<rparr>,
             stack_file = \<lparr>ring = [''aaa'', ''bbb''], position = Some 5\<rparr>\<rparr>"
  have h: "ring_inv (stack ?A)" by (simp add: ring_inv_def)
  from current_defensive_read[of ?A 1] h
  have a: "current ?A = Inr (Some ''bbb'', ?A)" by simp
  from current_defensive_read[of ?B 0]
  have b: "current ?B = Inr (None, ?B)" by simp
  from current_defensive_read[of ?C 5]
  have c: "current ?C = Inr (None, ?C)" by simp
  from h a b c show ?thesis by blast
qed

text \<open>
  The claim as stated fails: a stored position of -2 on a ring of one element passes the
  length check and the read raises \<open>IndexError\<close>.
\<close>

theorem current_raises_counterexample:
  "current \<lparr>stack = \<lparr>ring = [''aaa''], position = Some (- 2)\<rparr>,
            stack_file = \<lparr>ring = [''aaa''], position = Some (- 2)\<rparr>\<rparr> = Inl IndexError"
  by (simp add: current_def py_getitem_def py_index_def)

section \<open>The claims about the Git class\<close>

text \<open>
  Claim C8. \<open>ref_exists\<close> is meant to tell whether the name, or \<open>origin/\<close> followed by the
  name, exists. What it computes is the exit status of \<^verbatim>\<open>git branch --no-color\<close>, a command
  line in which the name does not occur: its answer is the same for every name.
\<close>

theorem ref_exists_ignores_the_name:
  "ref_exists sp name = (returncode (sp [''git'', ''branch'', ''--no-color'']) = 0)
   \<and> ref_exists sp name = ref_exists sp other"
  by (simp add: ref_exists_def u_ref_exists_def u_run_with_status_def)

text \<open>
  Claim C10. \<open>status_for\<close> runs \<^verbatim>\<open>git rev-list --left-right remote...local\<close>, strips the
  output and cuts it at the newlines: the pieces joined by newlines are the stripped
  output, and no piece holds a newline. With \<open>behind\<close> the number of pieces that start with
  \<^verbatim>\<open><\<close> (git's mark for a commit on the left side only, here the remote) and \<open>ahead\<close> the
  number that start with \<^verbatim>\<open>>\<close>, the token is \<^verbatim>\<open>=\<close> exactly when both are zero, and
  otherwise \<^verbatim>\<open><\<close> with \<open>behind\<close> when it is positive followed by \<^verbatim>\<open>>\<close> with \<open>ahead\<close> when it
  is positive. The numbers are written with the digits 0 to 9 and read back as themselves.
\<close>

theorem status_for_token:
  "(let out = strip py (stdout (sp [''git'', ''rev-list'', ''--left-right'', remote @ ''...'' @ local]));
        revs = split_on 10 out;
        behind = length (filter (\<lambda>r. \<exists>t. r = of_char (CHR ''<'') # t) revs);
        ahead = length (filter (\<lambda>r. \<exists>t. r = of_char (CHR ''>'') # t) revs)
    in concat (map (\<lambda>r. r @ [10]) revs) = out @ [10]
     \<and> list_all (\<lambda>r. 10 \<notin> set r) revs
     \<and> status_for py sp local remote =
         (if behind = 0 \<and> ahead = 0 then lit ''=''
          else (if 0 < behind then lit ''<'' @ str_nat behind else [])
             @ (if 0 < ahead then lit ''>'' @ str_nat ahead else []))
     \<and> ((status_for py sp local remote = lit ''='') = (behind = 0 \<and> ahead = 0))
     \<and> list_all (\<lambda>c. of_char (CHR ''0'') \<le> c \<and> c \<le> of_char (CHR ''9'')) (str_nat behind)
     \<and> foldl (\<lambda>a c. 10 * a + (c - of_char (CHR ''0''))) 0 (str_nat behind) = behind
     \<and> list_all (\<lambda>c. of_char (CHR ''0'') \<le> c \<and> c \<le> of_char (CHR ''9'')) (str_nat ahead)
     \<and> foldl (\<lambda>a c. 10 * a + (c - of_char (CHR ''0''))) 0 (str_nat ahead) = ahead)"
proof -
  define out where
    "out = strip py (stdout (sp [''git'', ''rev-list'', ''--left-right'', remote @ ''...'' @ local]))"
  define revs where "revs = split_on 10 out"
  define behind where "behind = length (filter (\<lambda>r. \<exists>t. r = of_char (CHR ''<'') # t) revs)"
  define ahead where "ahead = length (filter (\<lambda>r. \<exists>t. r = of_char (CHR ''>'') # t) revs)"
  have b: "length (filter (\<lambda>r. startswith r (lit ''<'')) revs) = behind"
    and a: "length (filter (\<lambda>r. startswith r (lit ''>'')) revs) = ahead"
    by (simp_all add: behind_def ahead_def lit_def startswith_one)
  have s: "status_for py sp local remote =
      (let behind_str = (if behind \<noteq> 0 then lit ''<'' @ str_nat behind else []);
           ahead_str = (if ahead \<noteq> 0 then lit ''>'' @ str_nat ahead else []);
           out = behind_str @ ahead_str
       in if out \<noteq> [] then out else lit ''='')"
    unfolding status_for_def u_run_def u_run_with_status_def Let_def
      out_def[symmetric] revs_def[symmetric] b a ..
  have 1: "status_for py sp local remote =
         (if behind = 0 \<and> ahead = 0 then lit ''=''
          else (if 0 < behind then lit ''<'' @ str_nat behind else [])
             @ (if 0 < ahead then lit ''>'' @ str_nat ahead else []))"
    unfolding s by (simp add: Let_def lit_def)
  have 2: "(status_for py sp local remote = lit ''='') = (behind = 0 \<and> ahead = 0)"
    unfolding 1 by (auto simp: lit_def)
  have 3: "concat (map (\<lambda>r. r @ [10]) revs) = out @ [10]"
    unfolding revs_def by (rule split_on_join)
  have 4: "list_all (\<lambda>r. 10 \<notin> set r) revs"
    unfolding revs_def by (rule split_on_pieces)
  have 5: "list_all (\<lambda>c. of_char (CHR ''0'') \<le> c \<and> c \<le> of_char (CHR ''9'')) (str_nat n)"
    "foldl (\<lambda>a c. 10 * a + (c - of_char (CHR ''0''))) 0 (str_nat n) = n" for n
    using str_nat_digits[of n] str_nat_value[of n] by simp_all
  show ?thesis
    unfolding Let_def out_def[symmetric] revs_def[symmetric] behind_def[symmetric]
      ahead_def[symmetric]
    by (intro conjI 1 2 3 4 5)
qed

section \<open>The claim about reconciliation\<close>

text \<open>
  Claim C3. \<^verbatim>\<open>_fix_ring\<close> is meant to drop the ring entries whose reference no longer exists
  and, if the only entry was dropped, to leave the current reference alone in the ring. In
  a work tree whose only branch is \<^verbatim>\<open>main\<close>, checked out, \<^verbatim>\<open>git branch --no-color\<close> exits
  with 0, \<open>ref_exists\<close> answers true for \<^verbatim>\<open>gone\<close> as for any name, and the ring \<^verbatim>\<open>gone\<close>
  becomes \<^verbatim>\<open>gone, main\<close>: the dead entry is kept.
\<close>

theorem fix_ring_keeps_dead_entry:
  "u_fix_ring
       (\<lambda>args. if args = [''git'', ''branch'', ''--no-color'']
                then \<lparr>returncode = 0, stdout = lit ''* main''\<rparr>
                else \<lparr>returncode = 1, stdout = []\<rparr>)
       \<lparr>stack = \<lparr>ring = [''gone''], position = Some 0\<rparr>,
        stack_file = \<lparr>ring = [''gone''], position = Some 0\<rparr>\<rparr> ''main''
     = Inr \<lparr>stack = \<lparr>ring = [''gone'', ''main''], position = Some 1\<rparr>,
            stack_file = \<lparr>ring = [''gone'', ''main''], position = Some 1\<rparr>\<rparr>"
  by (simp add: u_fix_ring_def current_def py_getitem_def py_index_def is_empty_def
      filter_ref_exists push_def py_insert_def save_def)

section \<open>The claim about interactive selection\<close>

text \<open>
  Claim C9, as amended. An input line is discarded, the command ending with the Stack in
  memory and the stored record as they were, whenever lines 354 to 356 raise. They do when
  the pattern finds no match at the start of the stripped line, when the matched text
  holds a number greater than the length of the ring, and when \<^verbatim>\<open>int()\<close> refuses one of its
  numbers; on a line that is matched those are the only cases, but for a 0 on an empty
  ring. This holds for every interpreter, and whatever \<^verbatim>\<open>pop(opts)\<close> and the jump would do.
\<close>

theorem malformed_selection_is_discarded:
  "(selection py (ring (stack s)) (strip py l) = Inl e \<longrightarrow>
      print_ring py pop_opts jump s branch (Some l) = (None, s))
   \<and> (match_selection py (strip py l) = None \<longrightarrow>
        print_ring py pop_opts jump s branch (Some l) = (None, s))
   \<and> (match_selection py (strip py l) = Some (g1, g2) \<and> b \<in> set (py_split py (strip py g2))
        \<and> py_int py b = Inr n \<and> int (length (ring (stack s))) < n \<longrightarrow>
        print_ring py pop_opts jump s branch (Some l) = (None, s))
   \<and> (match_selection py (strip py l) = Some (g1, g2) \<and> b \<in> set (py_split py (strip py g2))
        \<and> py_int py b = Inl e \<longrightarrow>
        print_ring py pop_opts jump s branch (Some l) = (None, s))
   \<and> ((\<exists>e'. selection py (ring (stack s)) (strip py l) = Inl e')
        = (case match_selection py (strip py l) of
             None \<Rightarrow> True
           | Some (h1, h2) \<Rightarrow>
               (\<exists>b'\<in>set (py_split py (strip py h2)). (\<exists>e'. py_int py b' = Inl e')
                  \<or> (\<exists>n'. py_int py b' = Inr n'
                        \<and> (int (length (ring (stack s))) < n'
                             \<or> (n' = 0 \<and> ring (stack s) = []))))))"
proof -
  have 5: "(\<exists>e'. selection py (ring (stack s)) (strip py l) = Inl e')
        = (case match_selection py (strip py l) of
             None \<Rightarrow> True
           | Some (h1, h2) \<Rightarrow>
               (\<exists>b'\<in>set (py_split py (strip py h2)). (\<exists>e'. py_int py b' = Inl e')
                  \<or> (\<exists>n'. py_int py b' = Inr n'
                        \<and> (int (length (ring (stack s))) < n'
                             \<or> (n' = 0 \<and> ring (stack s) = [])))))"
    by (rule selection_raises_iff)
  have 1: "selection py (ring (stack s)) (strip py l) = Inl e \<longrightarrow>
      print_ring py pop_opts jump s branch (Some l) = (None, s)"
    using print_ring_selection_error by blast
  have 2: "match_selection py (strip py l) = None \<longrightarrow>
        print_ring py pop_opts jump s branch (Some l) = (None, s)"
  proof
    assume "match_selection py (strip py l) = None"
    then have "selection py (ring (stack s)) (strip py l) = Inl AttributeError"
      by (simp add: selection_def)
    then show "print_ring py pop_opts jump s branch (Some l) = (None, s)"
      by (rule print_ring_selection_error)
  qed
  have 3: "match_selection py (strip py l) = Some (g1, g2) \<and> b \<in> set (py_split py (strip py g2))
        \<and> py_int py b = Inr n \<and> int (length (ring (stack s))) < n \<longrightarrow>
        print_ring py pop_opts jump s branch (Some l) = (None, s)"
  proof
    assume a: "match_selection py (strip py l) = Some (g1, g2) \<and> b \<in> set (py_split py (strip py g2))
        \<and> py_int py b = Inr n \<and> int (length (ring (stack s))) < n"
    then have "\<exists>e'. selection py (ring (stack s)) (strip py l) = Inl e'"
      unfolding 5 by auto
    then obtain e' where "selection py (ring (stack s)) (strip py l) = Inl e'" by blast
    then show "print_ring py pop_opts jump s branch (Some l) = (None, s)"
      by (rule print_ring_selection_error)
  qed
  have 4: "match_selection py (strip py l) = Some (g1, g2) \<and> b \<in> set (py_split py (strip py g2))
        \<and> py_int py b = Inl e \<longrightarrow>
        print_ring py pop_opts jump s branch (Some l) = (None, s)"
  proof
    assume a: "match_selection py (strip py l) = Some (g1, g2) \<and> b \<in> set (py_split py (strip py g2))
        \<and> py_int py b = Inl e"
    then have "\<exists>e'. selection py (ring (stack s)) (strip py l) = Inl e'"
      unfolding 5 by auto
    then obtain e' where "selection py (ring (stack s)) (strip py l) = Inl e'" by blast
    then show "print_ring py pop_opts jump s branch (Some l) = (None, s)"
      by (rule print_ring_selection_error)
  qed
  show ?thesis by (intro conjI 1 2 3 4 5)
qed

theorem malformed_selection_is_discarded_witness:
  "match_selection cpython_3_11 (strip cpython_3_11 (lit ''x'')) = None
   \<and> print_ring cpython_3_11 (Pair None) (\<lambda>branch_i. Pair None)
       \<lparr>stack = \<lparr>ring = [''aaa'', ''bbb''], position = Some 0\<rparr>,
        stack_file = \<lparr>ring = [''aaa'', ''bbb''], position = Some 0\<rparr>\<rparr> ''aaa'' (Some (lit ''x''))
     = (None, \<lparr>stack = \<lparr>ring = [''aaa'', ''bbb''], position = Some 0\<rparr>,
               stack_file = \<lparr>ring = [''aaa'', ''bbb''], position = Some 0\<rparr>\<rparr>)
   \<and> match_selection cpython_3_11 (strip cpython_3_11 (lit ''d1 9'')) = Some (lit ''d'', lit ''1 9'')
   \<and> lit ''9'' \<in> set (py_split cpython_3_11 (strip cpython_3_11 (lit ''1 9'')))
   \<and> py_int cpython_3_11 (lit ''9'') = Inr 9
   \<and> int (length [''aaa'', ''bbb'']) < 9
   \<and> print_ring cpython_3_11 (Pair None) (\<lambda>branch_i. Pair None)
       \<lparr>stack = \<lparr>ring = [''aaa'', ''bbb''], position = Some 0\<rparr>,
        stack_file = \<lparr>ring = [''aaa'', ''bbb''], position = Some 0\<rparr>\<rparr> ''aaa'' (Some (lit ''d1 9''))
     = (None, \<lparr>stack = \<lparr>ring = [''aaa'', ''bbb''], position = Some 0\<rparr>,
               stack_file = \<lparr>ring = [''aaa'', ''bbb''], position = Some 0\<rparr>\<rparr>)
   \<and> match_selection cpython_3_11 (strip cpython_3_11 (replicate 4301 49))
       = Some ([], replicate 4301 49)
   \<and> replicate 4301 49 \<in> set (py_split cpython_3_11 (strip cpython_3_11 (replicate 4301 49)))
   \<and> py_int cpython_3_11 (replicate 4301 49) = Inl ValueError
   \<and> print_ring cpython_3_11 (Pair None) (\<lambda>branch_i. Pair None)
       \<lparr>stack = \<lparr>ring = [''aaa'', ''bbb''], position = Some 0\<rparr>,
        stack_file = \<lparr>ring = [''aaa'', ''bbb''], position = Some 0\<rparr>\<rparr> ''aaa''
       (Some (replicate 4301 49))
     = (None, \<lparr>stack = \<lparr>ring = [''aaa'', ''bbb''], position = Some 0\<rparr>,
               stack_file = \<lparr>ring = [''aaa'', ''bbb''], position = Some 0\<rparr>\<rparr>)"
proof -
  let ?S = "\<lparr>stack = \<lparr>ring = [''aaa'', ''bbb''], position = Some 0\<rparr>,
             stack_file = \<lparr>ring = [''aaa'', ''bbb''], position = Some 0\<rparr>\<rparr>"
  have d: "lit ''x'' = [120]" "lit ''d1 9'' = [100, 49, 32, 57]" "lit ''1 9'' = [49, 32, 57]"
    "lit ''9'' = [57]" "lit ''d'' = [100]"
    by (simp_all add: lit_def)
  have s: "strip cpython_3_11 [120] = [120]" "strip cpython_3_11 [100, 49, 32, 57] = [100, 49, 32, 57]"
    "strip cpython_3_11 [49, 32, 57] = [49, 32, 57]"
    by (simp_all add: strip_def cpython_space)
  have m1: "match_selection cpython_3_11 (strip cpython_3_11 (lit ''x'')) = None"
    by (simp add: d s match_selection_def Let_def is_digit_def is_blank_def cpython_decimal)
  have mn: "more_numbers cpython_3_11 [32, 57] = [32, 57]"
    by (subst more_numbers.simps)
      (simp add: is_digit_def is_blank_def cpython_decimal more_numbers_nil)
  have m2: "match_selection cpython_3_11 (strip cpython_3_11 (lit ''d1 9''))
      = Some (lit ''d'', lit ''1 9'')"
    by (simp add: d s match_selection_def Let_def is_digit_def is_blank_def cpython_decimal mn)
  have t: "lit ''9'' \<in> set (py_split cpython_3_11 (strip cpython_3_11 (lit ''1 9'')))"
    by (simp add: d s py_split_def cpython_space)
  have i: "py_int cpython_3_11 (lit ''9'') = Inr 9"
    by (simp add: d py_int_def is_digit_def digit_value_def cpython_decimal cpython_3_11_def)
  have n: "int (length (ring (stack ?S))) < 9" by simp
  have n': "int (length [''aaa'', ''bbb'']) < 9" by simp
  from malformed_selection_is_discarded[of cpython_3_11 ?S "lit ''x''" AttributeError "Pair None"
      "\<lambda>branch_i. Pair None" "''aaa''"] m1
  have a: "print_ring cpython_3_11 (Pair None) (\<lambda>branch_i. Pair None) ?S ''aaa'' (Some (lit ''x''))
      = (None, ?S)"
    by blast
  from malformed_selection_is_discarded[of cpython_3_11 ?S "lit ''d1 9''" AttributeError "Pair None"
      "\<lambda>branch_i. Pair None" "''aaa''" "lit ''d''" "lit ''1 9''" "lit ''9''" 9] m2 t i n
  have b: "print_ring cpython_3_11 (Pair None) (\<lambda>branch_i. Pair None) ?S ''aaa''
      (Some (lit ''d1 9'')) = (None, ?S)"
    by blast
  have r1: "match_selection cpython_3_11 (strip cpython_3_11 (replicate 4301 49))
      = Some ([], replicate 4301 49)"
    and r2: "replicate 4301 49 \<in> set (py_split cpython_3_11 (strip cpython_3_11 (replicate 4301 49)))"
    and r3: "py_int cpython_3_11 (replicate 4301 49) = Inl ValueError"
    using long_number_refused by blast+
  from malformed_selection_is_discarded[of cpython_3_11 ?S "replicate 4301 49" ValueError
      "Pair None" "\<lambda>branch_i. Pair None" "''aaa''" "[]" "replicate 4301 49" "replicate 4301 49"]
    r1 r2 r3
  have c: "print_ring cpython_3_11 (Pair None) (\<lambda>branch_i. Pair None) ?S ''aaa''
      (Some (replicate 4301 49)) = (None, ?S)"
    by blast
  show ?thesis by (intro conjI m1 a m2 t i n' b r1 r2 r3 c)
qed

text \<open>
  The claim as stated fails. The line \<^verbatim>\<open>d0\<close> names no 1-based position, yet \<^verbatim>\<open>int("0") - 1\<close>
  is -1, Python reads \<^verbatim>\<open>stack.ring[-1]\<close> as the last entry, and that entry is deleted and
  the record saved.
\<close>

theorem zero_index_counterexample:
  "print_ring cpython_3_11 (Pair None) (\<lambda>branch_i. Pair None)
       \<lparr>stack = \<lparr>ring = [''aaa'', ''bbb''], position = Some 0\<rparr>,
        stack_file = \<lparr>ring = [''aaa'', ''bbb''], position = Some 0\<rparr>\<rparr> ''aaa'' (Some (lit ''d0''))
     = (None, \<lparr>stack = \<lparr>ring = [''aaa''], position = Some 0\<rparr>,
               stack_file = \<lparr>ring = [''aaa''], position = Some 0\<rparr>\<rparr>)"
proof -
  have d: "lit ''d0'' = [100, 48]" "lit ''d'' = [100]"
    by (simp_all add: lit_def)
  have s: "strip cpython_3_11 [100, 48] = [100, 48]" "strip cpython_3_11 [48] = [48]"
    by (simp_all add: strip_def cpython_space)
  have m: "match_selection cpython_3_11 [100, 48] = Some ([100], [48])"
    by (simp add: match_selection_def Let_def is_digit_def is_blank_def cpython_decimal
        more_numbers_nil)
  have t: "py_split cpython_3_11 [48] = [[48]]"
    by (simp add: py_split_def cpython_space)
  have i: "py_int cpython_3_11 [48] = Inr 0"
    by (simp add: py_int_def is_digit_def digit_value_def cpython_decimal cpython_3_11_def)
  have l: "lower [100] = [100]"
    by (simp add: lower_def)
  have sel: "selection cpython_3_11 [''aaa'', ''bbb''] [100, 48] = Inr ([100], [''bbb''])"
    by (simp add: selection_def m s t i l py_getitem_def py_index_def)
  show ?thesis
    by (simp add: print_ring_def d s sel save_def)
qed

end
